theory Spec2Isabelle
  imports Main "HOL-Library.Sublist"
begin

section \<open>Errors\<close>

text \<open>
  Every \<^verbatim>\<open>throw\<close> of \<^verbatim>\<open>src/lib/storage.ts\<close> and every exception raised by the JavaScript
  runtime or a collaborator on the paths modelled here is a value of this type.
  \<open>Error\<close> carries the message of \<^verbatim>\<open>new Error(message)\<close>. \<open>Unmodelled\<close> marks a
  situation the model does not cover; the theorems show where it is not reached.
\<close>

datatype error =
    Error string
  | TypeError string
  | MongoError string
  | Unmodelled string

section \<open>JavaScript values\<close>

text \<open>
  The values documents, filters and changelogs are made of: the JSON values, plus the
  two object kinds the store treats specially, \<^verbatim>\<open>Date\<close> (its time in milliseconds)
  and \<^verbatim>\<open>ObjectId\<close> (its 24-digit hexadecimal string). An object is the list of its
  own enumerable properties in enumeration order, as \<^verbatim>\<open>Object.keys\<close> and
  \<^verbatim>\<open>Object.entries\<close> give them. Numbers are integers; \<^verbatim>\<open>undefined\<close>, functions
  and class instances with a \<^verbatim>\<open>toJSON\<close> of their own are outside the model.
\<close>

datatype json =
    JNull
  | JBool bool
  | JNum int
  | JStr string
  | JDate int
  | JOid string
  | JArr "json list"
  | JObj "(string \<times> json) list"

text \<open>\<^verbatim>\<open>!!v\<close>: every object is truthy, and so are a non-zero number and a non-empty string.\<close>

fun truthy :: "json \<Rightarrow> bool" where
  "truthy JNull = False"
| "truthy (JBool b) = b"
| "truthy (JNum n) = (n \<noteq> 0)"
| "truthy (JStr s) = (s \<noteq> [])"
| "truthy (JDate d) = True"
| "truthy (JOid h) = True"
| "truthy (JArr vs) = True"
| "truthy (JObj kvs) = True"

text \<open>
  \<^verbatim>\<open>obj[k]\<close> on the property list (the first entry of the key; \<open>None\<close> is
  \<^verbatim>\<open>undefined\<close>), \<^verbatim>\<open>obj[k] = v\<close> (an existing property keeps its place, a new one
  goes to the end), and \<^verbatim>\<open>delete obj[k]\<close>.
\<close>

fun getProp :: "(string \<times> 'a) list \<Rightarrow> string \<Rightarrow> 'a option" where
  "getProp [] k = None"
| "getProp ((k', v) # kvs) k = (if k' = k then Some v else getProp kvs k)"

fun setProp :: "(string \<times> 'a) list \<Rightarrow> string \<Rightarrow> 'a \<Rightarrow> (string \<times> 'a) list" where
  "setProp [] k v = [(k, v)]"
| "setProp ((k', v') # kvs) k v =
     (if k' = k then (k, v) # kvs else (k', v') # setProp kvs k v)"

definition deleteProp :: "(string \<times> 'a) list \<Rightarrow> string \<Rightarrow> (string \<times> 'a) list" where
  "deleteProp kvs k = filter (\<lambda>(k', v). k' \<noteq> k) kvs"

text \<open>
  A JavaScript object has each of its keys once; \<open>wfJson\<close> says so of a value of the
  model and of every object within it. The scalars are \<^verbatim>\<open>null\<close>, the booleans, the
  numbers and the strings.
\<close>

fun wfJson :: "json \<Rightarrow> bool" where
  "wfJson (JArr vs) = list_all wfJson vs"
| "wfJson (JObj kvs) = (distinct (map fst kvs) \<and> list_all (\<lambda>(k, v). wfJson v) kvs)"
| "wfJson v = True"


section \<open>Serialization\<close>

text \<open>
  What the code takes from the JavaScript runtime and the BSON library, as parameters:
  \<^verbatim>\<open>Date.prototype.toISOString\<close>, \<^verbatim>\<open>ObjectId.isValid\<close>, the constructor
  \<^verbatim>\<open>new ObjectId(value)\<close>, and the string a template literal makes of a value. The
  constructor does one of two things. Given a number it generates a new identifier, from
  the number and from the state of the generator of the process, a counter that moves
  on with every identifier generated: \<open>generate rt s n\<close> is the hexadecimal string of
  the identifier generated in the state \<open>s\<close>, together with the state after it. Given
  anything else that is valid it converts it, and \<open>newObjectId rt v\<close> is the hexadecimal
  string of the result.
\<close>

record runtime =
  toISOString :: "int \<Rightarrow> string"
  isValid :: "json \<Rightarrow> bool"
  newObjectId :: "json \<Rightarrow> string"
  generate :: "nat \<Rightarrow> int \<Rightarrow> string \<times> nat"
  toString :: "json \<Rightarrow> string"

text \<open>
  \<^verbatim>\<open>JSON.parse(JSON.stringify(v))\<close> without a reviver: a \<^verbatim>\<open>Date\<close> becomes its ISO
  string and an \<^verbatim>\<open>ObjectId\<close> its hexadecimal string (both through their
  \<^verbatim>\<open>toJSON\<close>); everything else is rebuilt as it is.
\<close>

fun jsonCopy :: "runtime \<Rightarrow> json \<Rightarrow> json" where
  "jsonCopy rt (JDate d) = JStr (toISOString rt d)"
| "jsonCopy rt (JOid h) = JStr h"
| "jsonCopy rt (JArr vs) = JArr (map (jsonCopy rt) vs)"
| "jsonCopy rt (JObj kvs) = JObj (map (\<lambda>(k, v). (k, jsonCopy rt v)) kvs)"
| "jsonCopy rt v = v"

text \<open>\<^verbatim>\<open>key.endsWith('Id') || key === '_id'\<close>\<close>

definition endsWith :: "string \<Rightarrow> string \<Rightarrow> bool" where
  "endsWith s sfx \<longleftrightarrow> length sfx \<le> length s \<and> drop (length s - length sfx) s = sfx"

text \<open>
  The reviver of \<^verbatim>\<open>serialize\<close>, in the generator state \<open>s\<close>: the value it returns and
  the state it leaves.
\<close>

definition reviver :: "runtime \<Rightarrow> string \<Rightarrow> json \<Rightarrow> nat \<Rightarrow> json \<times> nat" where
  "reviver rt k v s =
     (if (endsWith k ''Id'' \<or> k = ''_id'') \<and> isValid rt v
      then (case v of
              JNum n \<Rightarrow> (case generate rt s n of (x, s') \<Rightarrow> (JOid x, s'))
            | _ \<Rightarrow> (JOid (newObjectId rt v), s))
      else (v, s))"

text \<open>
  \<^verbatim>\<open>JSON.parse(text, reviver)\<close> walks the parsed value and calls the reviver on every
  property with its key, the parts of a value before the value itself and the
  properties of an object in their order. The key of an array element is its index in
  decimal and the key of the root is the empty string, and neither ends in \<^verbatim>\<open>Id\<close>, so
  only properties of objects are ever revived.
\<close>

fun revive :: "runtime \<Rightarrow> json \<Rightarrow> nat \<Rightarrow> json \<times> nat"
and reviveItems :: "runtime \<Rightarrow> json list \<Rightarrow> nat \<Rightarrow> json list \<times> nat"
and reviveProps :: "runtime \<Rightarrow> (string \<times> json) list \<Rightarrow> nat \<Rightarrow> (string \<times> json) list \<times> nat" where
  "revive rt (JArr vs) s = (case reviveItems rt vs s of (vs', s') \<Rightarrow> (JArr vs', s'))"
| "revive rt (JObj kvs) s = (case reviveProps rt kvs s of (kvs', s') \<Rightarrow> (JObj kvs', s'))"
| "revive rt JNull s = (JNull, s)"
| "revive rt (JBool b) s = (JBool b, s)"
| "revive rt (JNum n) s = (JNum n, s)"
| "revive rt (JStr x) s = (JStr x, s)"
| "revive rt (JDate d) s = (JDate d, s)"
| "revive rt (JOid h) s = (JOid h, s)"
| "reviveItems rt [] s = ([], s)"
| "reviveItems rt (v # vs) s =
     (case revive rt v s of (v', s1) \<Rightarrow>
        (case reviveItems rt vs s1 of (vs', s2) \<Rightarrow> (v' # vs', s2)))"
| "reviveProps rt [] s = ([], s)"
| "reviveProps rt ((k, v) # kvs) s =
     (case revive rt v s of (v', s1) \<Rightarrow>
        (case reviver rt k v' s1 of (v'', s2) \<Rightarrow>
           (case reviveProps rt kvs s2 of (kvs', s3) \<Rightarrow> ((k, v'') # kvs', s3))))"

text \<open>
  The function \<^verbatim>\<open>serialize\<close> of \<^verbatim>\<open>src/lib/storage.ts\<close>, called in the generator state
  \<open>s\<close>.
\<close>

definition serialize :: "runtime \<Rightarrow> json \<Rightarrow> nat \<Rightarrow> json \<times> nat" where
  "serialize rt document s = revive rt (jsonCopy rt document) s"


definition reviverPure :: "runtime \<Rightarrow> string \<Rightarrow> json \<Rightarrow> json" where
  "reviverPure rt k v =
     (if (endsWith k ''Id'' \<or> k = ''_id'') \<and> isValid rt v then JOid (newObjectId rt v) else v)"

fun revivePure :: "runtime \<Rightarrow> json \<Rightarrow> json" where
  "revivePure rt (JArr vs) = JArr (map (revivePure rt) vs)"
| "revivePure rt (JObj kvs) = JObj (map (\<lambda>(k, v). (k, reviverPure rt k (revivePure rt v))) kvs)"
| "revivePure rt v = v"

definition serializePure :: "runtime \<Rightarrow> json \<Rightarrow> json" where
  "serializePure rt document = revivePure rt (jsonCopy rt document)"

section \<open>Structural Differ and Changelog Builder\<close>

datatype pathKey = Key string | Index nat

text \<open>
  The edit records. The item of an \<open>ArrayChange\<close> is a \<open>New\<close> or a \<open>Deleted\<close> that has
  no path of its own, here the empty path.
\<close>

datatype edit =
    New "pathKey list" json
  | Deleted "pathKey list" json
  | Edited "pathKey list" json json
  | ArrayChange "pathKey list" nat edit

text \<open>
  Elements beyond the shorter length, from the last index down: added ones when the
  right array is the longer, removed ones when the left is.
\<close>

definition arrayTail :: "pathKey list \<Rightarrow> json list \<Rightarrow> json list \<Rightarrow> edit list" where
  "arrayTail path ls rs =
     map (\<lambda>i. ArrayChange path i (New [] (rs ! i))) (rev [length ls ..< length rs])
     @ map (\<lambda>j. ArrayChange path j (Deleted [] (ls ! j))) (rev [length rs ..< length ls])"

text \<open>Keys present only on the right, in the right object's order.\<close>

definition newProps :: "pathKey list \<Rightarrow> (string \<times> json) list \<Rightarrow> (string \<times> json) list \<Rightarrow> edit list" where
  "newProps path lkvs rkvs =
     map (\<lambda>(k, v). New (path @ [Key k]) v) (filter (\<lambda>(k, v). getProp lkvs k = None) rkvs)"

text \<open>
  Modelled from the spec: the Structural Differ, which the repository takes from the
  package \<^verbatim>\<open>deep-diff\<close> (\<^verbatim>\<open>diff\<close>) and which is not among its sources. Both values
  are walked in parallel, objects by key and arrays by index; a scalar changed in place
  is \<open>Edited\<close>; a key only on the right is \<open>New\<close>, a key only on the left \<open>Deleted\<close>;
  array elements beyond the shorter length are \<open>ArrayChange\<close>s and the common prefix is
  compared by position. Where the spec is silent the model does as the package
  documents: two values of different kinds are one \<open>Edited\<close>; dates are compared by
  their time; the left object's keys come first, in its order, then the keys only the
  right object has; for arrays the length edits come first and then the common
  prefix, both from the highest index down. This is the order the repository's test
  \<^verbatim>\<open>creating a changelog\<close> expects. An \<^verbatim>\<open>ObjectId\<close> counts as a scalar, compared
  by its hexadecimal string.
\<close>

fun deepDiff :: "pathKey list \<Rightarrow> json \<Rightarrow> json \<Rightarrow> edit list"
and diffItems :: "pathKey list \<Rightarrow> nat \<Rightarrow> json list \<Rightarrow> json list \<Rightarrow> edit list"
and diffProps :: "pathKey list \<Rightarrow> (string \<times> json) list \<Rightarrow> (string \<times> json) list \<Rightarrow> edit list" where
  "deepDiff path (JArr ls) rhs =
     (case rhs of
        JArr rs \<Rightarrow> arrayTail path ls rs @ diffItems path 0 ls rs
      | _ \<Rightarrow> [Edited path (JArr ls) rhs])"
| "deepDiff path (JObj lkvs) rhs =
     (case rhs of
        JObj rkvs \<Rightarrow> diffProps path lkvs rkvs @ newProps path lkvs rkvs
      | _ \<Rightarrow> [Edited path (JObj lkvs) rhs])"
| "deepDiff path JNull rhs = (if rhs = JNull then [] else [Edited path JNull rhs])"
| "deepDiff path (JBool b) rhs = (if rhs = JBool b then [] else [Edited path (JBool b) rhs])"
| "deepDiff path (JNum n) rhs = (if rhs = JNum n then [] else [Edited path (JNum n) rhs])"
| "deepDiff path (JStr s) rhs = (if rhs = JStr s then [] else [Edited path (JStr s) rhs])"
| "deepDiff path (JDate d) rhs = (if rhs = JDate d then [] else [Edited path (JDate d) rhs])"
| "deepDiff path (JOid h) rhs = (if rhs = JOid h then [] else [Edited path (JOid h) rhs])"
| "diffItems path i [] rs = []"
| "diffItems path i (l # ls) [] = []"
| "diffItems path i (l # ls) (r # rs) =
     diffItems path (Suc i) ls rs @ deepDiff (path @ [Index i]) l r"
| "diffProps path [] rkvs = []"
| "diffProps path ((k, l) # lkvs) rkvs =
     (case getProp rkvs k of
        Some r \<Rightarrow> deepDiff (path @ [Key k]) l r
      | None \<Rightarrow> [Deleted (path @ [Key k]) l])
     @ diffProps path lkvs rkvs"

text \<open>
  \<^verbatim>\<open>diff(lhs, rhs)\<close> as \<^verbatim>\<open>createChangelog\<close> calls it: \<^verbatim>\<open>undefined\<close>, here \<open>None\<close>,
  when there is no difference.
\<close>

definition diff :: "json \<Rightarrow> json \<Rightarrow> edit list option" where
  "diff lhs rhs = (let changes = deepDiff [] lhs rhs in if changes = [] then None else Some changes)"

text \<open>\<^verbatim>\<open>_.cloneDeep\<close> on a value: it is rebuilt node by node.\<close>

fun cloneDeep :: "json \<Rightarrow> json" where
  "cloneDeep (JArr vs) = JArr (map cloneDeep vs)"
| "cloneDeep (JObj kvs) = JObj (map (\<lambda>(k, v). (k, cloneDeep v)) kvs)"
| "cloneDeep v = v"

text \<open>\<^verbatim>\<open>Object.assign(target, source)\<close> on property lists.\<close>

definition assign :: "(string \<times> json) list \<Rightarrow> (string \<times> json) list \<Rightarrow> (string \<times> json) list" where
  "assign target source = foldl (\<lambda>t (k, v). setProp t k v) target source"

text \<open>
  \<^verbatim>\<open>JSON.parse(JSON.stringify(difference))\<close> on the edit records: the values they
  carry are copied through JSON.
\<close>

fun editCopy :: "runtime \<Rightarrow> edit \<Rightarrow> edit" where
  "editCopy rt (New path rhs) = New path (jsonCopy rt rhs)"
| "editCopy rt (Deleted path lhs) = Deleted path (jsonCopy rt lhs)"
| "editCopy rt (Edited path lhs rhs) = Edited path (jsonCopy rt lhs) (jsonCopy rt rhs)"
| "editCopy rt (ArrayChange path i item) = ArrayChange path i (editCopy rt item)"

record IRequestContext =
  ip :: string
  token :: string
  endpoint :: string

record IChangelog = IRequestContext +
  timestamp :: int
  changes :: "edit list"

text \<open>
  The function \<^verbatim>\<open>createChangelog\<close>; \<open>now\<close> is the time \<^verbatim>\<open>new Date()\<close> reads. The two
  documents are objects, given by their property lists.
\<close>

definition createChangelog ::
  "runtime \<Rightarrow> int \<Rightarrow> IRequestContext \<Rightarrow> (string \<times> json) list \<Rightarrow> (string \<times> json) list \<Rightarrow> IChangelog" where
  "createChangelog rt now rc originalOrder updates =
     (let updatesOnOriginal = assign (map (\<lambda>(k, v). (k, cloneDeep v)) originalOrder) updates;
          difference = diff (JObj originalOrder) (JObj updatesOnOriginal)
      in \<lparr>ip = ip rc, token = token rc, endpoint = endpoint rc, timestamp = now,
          changes = map (editCopy rt) (case difference of Some d \<Rightarrow> d | None \<Rightarrow> [])\<rparr>)"

text \<open>
  A changelog entry as the plain object that is stored: the edit records are the
  objects of \<^verbatim>\<open>deep-diff\<close> after their trip through JSON, with the properties
  \<^verbatim>\<open>kind\<close>, \<^verbatim>\<open>path\<close> (left out when empty), \<^verbatim>\<open>lhs\<close>, \<^verbatim>\<open>rhs\<close>, \<^verbatim>\<open>index\<close> and
  \<^verbatim>\<open>item\<close>.
\<close>

fun pathKeyJson :: "pathKey \<Rightarrow> json" where
  "pathKeyJson (Key k) = JStr k"
| "pathKeyJson (Index i) = JNum (int i)"

definition pathJson :: "pathKey list \<Rightarrow> (string \<times> json) list" where
  "pathJson path = (if path = [] then [] else [(''path'', JArr (map pathKeyJson path))])"

fun editJson :: "edit \<Rightarrow> json" where
  "editJson (New path rhs) = JObj ([(''kind'', JStr ''N'')] @ pathJson path @ [(''rhs'', rhs)])"
| "editJson (Deleted path lhs) = JObj ([(''kind'', JStr ''D'')] @ pathJson path @ [(''lhs'', lhs)])"
| "editJson (Edited path lhs rhs) =
     JObj ([(''kind'', JStr ''E'')] @ pathJson path @ [(''lhs'', lhs), (''rhs'', rhs)])"
| "editJson (ArrayChange path i item) =
     JObj ([(''kind'', JStr ''A'')] @ pathJson path @ [(''index'', JNum (int i)), (''item'', editJson item)])"

definition changelogJson :: "IChangelog \<Rightarrow> json" where
  "changelogJson c =
     JObj [(''ip'', JStr (ip c)), (''token'', JStr (token c)), (''endpoint'', JStr (endpoint c)),
           (''timestamp'', JDate (timestamp c)), (''changes'', JArr (map editJson (changes c)))]"

section \<open>Reading a changelog back\<close>

text \<open>
  The round-trip law of the Changelog Builder is about values that are plain JSON:
  no \<^verbatim>\<open>Date\<close> and no \<^verbatim>\<open>ObjectId\<close> anywhere within them.
\<close>

fun jsonLike :: "json \<Rightarrow> bool" where
  "jsonLike (JDate d) = False"
| "jsonLike (JOid h) = False"
| "jsonLike (JArr vs) = list_all jsonLike vs"
| "jsonLike (JObj kvs) = list_all (\<lambda>(k, v). jsonLike v) kvs"
| "jsonLike v = True"

text \<open>
  \<open>updateAt path f t\<close> is \<open>t\<close> with the value at \<open>path\<close> replaced by \<open>f\<close> of it; a path
  that leads nowhere in \<open>t\<close> leaves it as it is.
\<close>

fun updateAt :: "pathKey list \<Rightarrow> (json \<Rightarrow> json) \<Rightarrow> json \<Rightarrow> json" where
  "updateAt [] f t = f t"
| "updateAt (Key k # path) f (JObj kvs) =
     (case getProp kvs k of
        Some v \<Rightarrow> JObj (setProp kvs k (updateAt path f v))
      | None \<Rightarrow> JObj kvs)"
| "updateAt (Index i # path) f (JArr vs) =
     (if i < length vs then JArr (vs[i := updateAt path f (vs ! i)]) else JArr vs)"
| "updateAt (x # path) f t = t"

text \<open>
  Modelled from the spec: the reading of the edit records under which the spec states
  the round-trip law; the repository has no code that applies a changelog. A \<open>New\<close>
  inserts the key its path ends in into the object at the rest of the path, a
  \<open>Deleted\<close> removes that key, an \<open>Edited\<close> replaces the value at its path, and an
  \<open>ArrayChange\<close> inserts or removes an item of the array at its path at the given
  index. To insert an item at an index is to make it the element at that index, the
  array growing up to it, as the assignment \<^verbatim>\<open>arr[index] = item\<close> does (and
  \<^verbatim>\<open>applyChange\<close> of \<^verbatim>\<open>deep-diff\<close>): the Structural Differ gives the items added to an
  array from the highest index down, so the first of them gives the array its new
  length and the others fill the places below, which are \<^verbatim>\<open>null\<close> until then. To
  remove the item at an index is to take it out of the array.
\<close>

definition insertKey :: "string \<Rightarrow> json \<Rightarrow> json \<Rightarrow> json" where
  "insertKey k v t = (case t of JObj kvs \<Rightarrow> JObj (setProp kvs k v) | _ \<Rightarrow> t)"

definition removeKey :: "string \<Rightarrow> json \<Rightarrow> json" where
  "removeKey k t = (case t of JObj kvs \<Rightarrow> JObj (deleteProp kvs k) | _ \<Rightarrow> t)"

definition insertItem :: "nat \<Rightarrow> json \<Rightarrow> json \<Rightarrow> json" where
  "insertItem i v t =
     (case t of JArr vs \<Rightarrow> JArr ((vs @ replicate (Suc i - length vs) JNull)[i := v]) | _ \<Rightarrow> t)"

definition removeItem :: "nat \<Rightarrow> json \<Rightarrow> json" where
  "removeItem i t = (case t of JArr vs \<Rightarrow> JArr (take i vs @ drop (Suc i) vs) | _ \<Rightarrow> t)"

fun applyChange :: "edit \<Rightarrow> json \<Rightarrow> json" where
  "applyChange (New path rhs) t =
     (case rev path of Key k # parent \<Rightarrow> updateAt (rev parent) (insertKey k rhs) t | _ \<Rightarrow> t)"
| "applyChange (Deleted path lhs) t =
     (case rev path of Key k # parent \<Rightarrow> updateAt (rev parent) (removeKey k) t | _ \<Rightarrow> t)"
| "applyChange (Edited path lhs rhs) t = updateAt path (\<lambda>v. rhs) t"
| "applyChange (ArrayChange path i (New p rhs)) t = updateAt path (insertItem i rhs) t"
| "applyChange (ArrayChange path i (Deleted p lhs)) t = updateAt path (removeItem i) t"
| "applyChange (ArrayChange path i item) t = t"

definition applyChanges :: "edit list \<Rightarrow> json \<Rightarrow> json" where
  "applyChanges es t = foldl (\<lambda>t e. applyChange e t) t es"

text \<open>
  The shallow merge of the spec, \<open>before \<oplus> afterPartial\<close>: every top-level field of
  \<open>afterPartial\<close> replaces the field of \<open>before\<close> with its key or, if there is none, is
  added to it.
\<close>

definition shallowMerge :: "(string \<times> json) list \<Rightarrow> (string \<times> json) list \<Rightarrow> (string \<times> json) list" where
  "shallowMerge before afterPartial =
     map (\<lambda>(k, v). (k, case getProp afterPartial k of Some v' \<Rightarrow> v' | None \<Rightarrow> v)) before
     @ filter (\<lambda>(k, v). getProp before k = None) afterPartial"

text \<open>
  Two values of the model that differ only in the order in which their objects list
  their properties are the same value for \<^verbatim>\<open>deep-diff\<close> and for a deep comparison.
  \<open>abstract\<close> maps a value to what it stands for, where an object is the finite map
  from its keys to what its properties stand for.
\<close>

datatype aval =
    ANull
  | ABool bool
  | ANum int
  | AStr string
  | ADate int
  | AOid string
  | AArr "aval list"
  | AObj "string \<Rightarrow> aval option"

fun abstract :: "json \<Rightarrow> aval" where
  "abstract JNull = ANull"
| "abstract (JBool b) = ABool b"
| "abstract (JNum n) = ANum n"
| "abstract (JStr s) = AStr s"
| "abstract (JDate d) = ADate d"
| "abstract (JOid h) = AOid h"
| "abstract (JArr vs) = AArr (map abstract vs)"
| "abstract (JObj kvs) = AObj (map_of (map (\<lambda>(k, v). (k, abstract v)) kvs))"

text \<open>
  Updating at a path, reading at a path and the reading of the edit records, on what
  the values stand for.
\<close>

fun updateV :: "pathKey list \<Rightarrow> (aval \<Rightarrow> aval) \<Rightarrow> aval \<Rightarrow> aval" where
  "updateV [] f t = f t"
| "updateV (Key k # path) f (AObj m) =
     (case m k of Some v \<Rightarrow> AObj (m(k \<mapsto> updateV path f v)) | None \<Rightarrow> AObj m)"
| "updateV (Index i # path) f (AArr vs) =
     (if i < length vs then AArr (vs[i := updateV path f (vs ! i)]) else AArr vs)"
| "updateV (x # path) f t = t"

fun atV :: "pathKey list \<Rightarrow> aval \<Rightarrow> aval option" where
  "atV [] t = Some t"
| "atV (Key k # path) (AObj m) = (case m k of Some v \<Rightarrow> atV path v | None \<Rightarrow> None)"
| "atV (Index i # path) (AArr vs) = (if i < length vs then atV path (vs ! i) else None)"
| "atV (x # path) t = None"

definition insertKeyV :: "string \<Rightarrow> aval \<Rightarrow> aval \<Rightarrow> aval" where
  "insertKeyV k v t = (case t of AObj m \<Rightarrow> AObj (m(k \<mapsto> v)) | _ \<Rightarrow> t)"

definition removeKeyV :: "string \<Rightarrow> aval \<Rightarrow> aval" where
  "removeKeyV k t = (case t of AObj m \<Rightarrow> AObj (m(k := None)) | _ \<Rightarrow> t)"

definition insertItemV :: "nat \<Rightarrow> aval \<Rightarrow> aval \<Rightarrow> aval" where
  "insertItemV i v t =
     (case t of AArr vs \<Rightarrow> AArr ((vs @ replicate (Suc i - length vs) ANull)[i := v]) | _ \<Rightarrow> t)"

definition removeItemV :: "nat \<Rightarrow> aval \<Rightarrow> aval" where
  "removeItemV i t = (case t of AArr vs \<Rightarrow> AArr (take i vs @ drop (Suc i) vs) | _ \<Rightarrow> t)"

fun applyV :: "edit \<Rightarrow> aval \<Rightarrow> aval" where
  "applyV (New path rhs) t =
     (case rev path of Key k # parent \<Rightarrow> updateV (rev parent) (insertKeyV k (abstract rhs)) t | _ \<Rightarrow> t)"
| "applyV (Deleted path lhs) t =
     (case rev path of Key k # parent \<Rightarrow> updateV (rev parent) (removeKeyV k) t | _ \<Rightarrow> t)"
| "applyV (Edited path lhs rhs) t = updateV path (\<lambda>v. abstract rhs) t"
| "applyV (ArrayChange path i (New p rhs)) t = updateV path (insertItemV i (abstract rhs)) t"
| "applyV (ArrayChange path i (Deleted p lhs)) t = updateV path (removeItemV i) t"
| "applyV (ArrayChange path i item) t = t"

definition applyChangesV :: "edit list \<Rightarrow> aval \<Rightarrow> aval" where
  "applyChangesV es t = foldl (\<lambda>t e. applyV e t) t es"

section \<open>The database collaborator\<close>

text \<open>
  Modelled from the spec: the database (the MongoDB driver and server, not part of the
  repository), as far as the store uses it on one collection. A collection is the
  list of its documents, each the property list of an object with an \<^verbatim>\<open>_id\<close>.
  Which documents a filter matches is the parameter \<open>matches\<close>.

  \<^item> \<open>db_insertOne\<close>: the driver gives a document without \<^verbatim>\<open>_id\<close> the generated
    identifier \<open>newId\<close>; an \<^verbatim>\<open>_id\<close> that is already in the collection is rejected;
    otherwise the document is added, and it is what \<^verbatim>\<open>result.ops[0]\<close> holds.
  \<^item> \<open>db_findOne\<close> with the projection \<^verbatim>\<open>{ _id: 0 }\<close>: the first matching document,
    without its \<^verbatim>\<open>_id\<close>.
  \<^item> \<open>db_findOneAndUpdate\<close> with \<^verbatim>\<open>{ $set: setFields, $push: { changelogs: entry } }\<close>,
    the projection \<^verbatim>\<open>{ _id: 0 }\<close> and \<^verbatim>\<open>returnOriginal: false\<close>: on the first matching
    document the fields are set and the entry is appended to the array
    \<^verbatim>\<open>changelogs\<close> (created when absent, an error when it is not an array); the value
    is the updated document without its \<^verbatim>\<open>_id\<close>, or \<open>None\<close> when nothing matches.
\<close>

definition db_insertOne ::
  "json \<Rightarrow> (string \<times> json) list \<Rightarrow> (string \<times> json) list list
   \<Rightarrow> error + (string \<times> json) list \<times> (string \<times> json) list list" where
  "db_insertOne newId doc coll =
     (let doc' = (if getProp doc ''_id'' = None then setProp doc ''_id'' newId else doc)
      in if getProp doc' ''_id'' \<in> set (map (\<lambda>d. getProp d ''_id'') coll)
         then Inl (MongoError ''E11000 duplicate key error'')
         else Inr (doc', coll @ [doc']))"

definition db_findOne ::
  "((string \<times> json) list \<Rightarrow> (string \<times> json) list \<Rightarrow> bool) \<Rightarrow> (string \<times> json) list
   \<Rightarrow> (string \<times> json) list list \<Rightarrow> (string \<times> json) list option" where
  "db_findOne matching fltr coll =
     map_option (\<lambda>d. deleteProp d ''_id'') (find (matching fltr) coll)"


section \<open>The Document Store: validation, insert, find\<close>

text \<open>
  What \<^verbatim>\<open>makeStorage\<close> closes over. \<open>documentSchema\<close> stands for the call
  \<^verbatim>\<open>Joi.validate(document, documentSchema.append({changelogs: Joi.optional()}),
  {stripUnknown: true})\<close>: it gives the message of the error, if any, and the validated
  value (the document without the keys the schema does not know). \<open>convert\<close> stands
  for \<^verbatim>\<open>convertObjectWithPattern(doc, Object.keys(MoneySchema.describe().children),
  Money.fromMoney)\<close> and \<open>matches\<close> for the database's query matching; the three are
  collaborators outside the repository.
\<close>

record Storage =
  documentName :: string
  collectionName :: string
  documentSchema :: "json \<Rightarrow> string option \<times> json"
  convert :: "(string \<times> json) list \<Rightarrow> (string \<times> json) list"
  matches :: "(string \<times> json) list \<Rightarrow> (string \<times> json) list \<Rightarrow> bool"

text \<open>The properties of an object; the store only takes them of objects.\<close>

fun props :: "json \<Rightarrow> (string \<times> json) list" where
  "props (JObj kvs) = kvs"
| "props v = []"

definition validate :: "Storage \<Rightarrow> json \<Rightarrow> error + json" where
  "validate st document =
     (case documentSchema st document of
        (Some message, value) \<Rightarrow>
          Inl (Error (''Error validating '' @ [CHR 0x27] @ collectionName st @ [CHR 0x27]
                      @ '' document: '' @ message))
      | (None, value) \<Rightarrow> Inr value)"

text \<open>
  The same function in the earlier revision of the store that the repository keeps
  (\<^verbatim>\<open>src/unnamed/part_005\<close>): there the message names \<open>documentName\<close>.
\<close>

definition validate_part_005 :: "Storage \<Rightarrow> json \<Rightarrow> error + json" where
  "validate_part_005 st document =
     (case documentSchema st document of
        (Some message, value) \<Rightarrow>
          Inl (Error (''Error validating '' @ [CHR 0x27] @ documentName st @ [CHR 0x27]
                      @ '': '' @ message))
      | (None, value) \<Rightarrow> Inr value)"

definition mapDocumentFromDb :: "Storage \<Rightarrow> (string \<times> json) list \<Rightarrow> (string \<times> json) list" where
  "mapDocumentFromDb st doc = convert st doc"

text \<open>
  \<^verbatim>\<open>insertOne\<close>. The result of \<^verbatim>\<open>validate\<close> is dropped: what is stored is
  \<^verbatim>\<open>serialize(document)\<close> with the property \<^verbatim>\<open>changelogs\<close> assigned. The function
  returns the outcome together with the generator state and the collection as the call
  leaves them; \<open>now\<close> is the clock, \<open>newId\<close> the identifier the driver would generate
  and \<open>s\<close> the generator state at the call.
\<close>

definition insertOne ::
  "runtime \<Rightarrow> Storage \<Rightarrow> int \<Rightarrow> json \<Rightarrow> IRequestContext \<Rightarrow> (string \<times> json) list
   \<Rightarrow> nat \<Rightarrow> (string \<times> json) list list
   \<Rightarrow> (error + (string \<times> json) list) \<times> nat \<times> (string \<times> json) list list" where
  "insertOne rt st now newId rc document s coll =
     (case validate st (JObj document) of
        Inl e \<Rightarrow> (Inl e, s, coll)
      | Inr value \<Rightarrow>
          (case serialize rt (JObj document) s of (serialized, s') \<Rightarrow>
             (case db_insertOne newId
                     (assign (props serialized)
                        [(''changelogs'', JArr [changelogJson (createChangelog rt now rc [] [])])])
                     coll of
                Inl e \<Rightarrow> (Inl e, s', coll)
              | Inr (ops0, coll') \<Rightarrow>
                  (Inr (mapDocumentFromDb st (deleteProp ops0 ''_id'')), s', coll'))))"

text \<open>The suffix \<^verbatim>\<open>(filter._id ? ` #${filter._id}` : '')\<close> of the error messages.\<close>

definition idSuffix :: "runtime \<Rightarrow> (string \<times> json) list \<Rightarrow> string" where
  "idSuffix rt fltr =
     (case getProp fltr ''_id'' of
        Some v \<Rightarrow> if truthy v then '' #'' @ toString rt v else []
      | None \<Rightarrow> [])"

definition findOne ::
  "runtime \<Rightarrow> Storage \<Rightarrow> (string \<times> json) list \<Rightarrow> (string \<times> json) list list
   \<Rightarrow> error + (string \<times> json) list" where
  "findOne rt st fltr coll =
     (case db_findOne (matches st) fltr coll of
        None \<Rightarrow> Inl (Error (documentName st @ idSuffix rt fltr @ '' doesn't exist''))
      | Some foundDocument \<Rightarrow> Inr (mapDocumentFromDb st foundDocument))"

section \<open>Objects in memory\<close>

text \<open>
  Documents that the caller and the store both hold are objects on the JavaScript
  heap, and two references to one object see each other's writes. The heap is a list
  of cells, an address is an index into it; a cell is an array or an object, and its
  elements are scalars or references to cells.
\<close>

datatype hval =
    HNull
  | HBool bool
  | HNum int
  | HStr string
  | HDate int
  | HOid string
  | HRef nat

datatype cell =
    CArr "hval list"
  | CObj "(string \<times> hval) list"

text \<open>
  A value that comes from outside the heap (a document the driver has just read)
  becomes fresh cells: the cells of the parts first, then the cell of the whole.
\<close>

fun alloc :: "json \<Rightarrow> cell list \<Rightarrow> hval \<times> cell list"
and allocItems :: "json list \<Rightarrow> cell list \<Rightarrow> hval list \<times> cell list"
and allocProps :: "(string \<times> json) list \<Rightarrow> cell list \<Rightarrow> (string \<times> hval) list \<times> cell list" where
  "alloc JNull h = (HNull, h)"
| "alloc (JBool b) h = (HBool b, h)"
| "alloc (JNum n) h = (HNum n, h)"
| "alloc (JStr s) h = (HStr s, h)"
| "alloc (JDate d) h = (HDate d, h)"
| "alloc (JOid x) h = (HOid x, h)"
| "alloc (JArr vs) h = (case allocItems vs h of (hvs, h') \<Rightarrow> (HRef (length h'), h' @ [CArr hvs]))"
| "alloc (JObj kvs) h = (case allocProps kvs h of (hkvs, h') \<Rightarrow> (HRef (length h'), h' @ [CObj hkvs]))"
| "allocItems [] h = ([], h)"
| "allocItems (v # vs) h =
     (case alloc v h of (hv, h1) \<Rightarrow>
        (case allocItems vs h1 of (hvs, h2) \<Rightarrow> (hv # hvs, h2)))"
| "allocProps [] h = ([], h)"
| "allocProps ((k, v) # kvs) h =
     (case alloc v h of (hv, h1) \<Rightarrow>
        (case allocProps kvs h1 of (hkvs, h2) \<Rightarrow> ((k, hv) # hkvs, h2)))"

text \<open>
  Reading the value behind a heap value, following references at most \<open>n\<close> cells
  deep; \<open>None\<close> when the depth does not suffice or a reference dangles. A heap of
  \<open>length h\<close> cells has no acyclic chain of references longer than that, so reading
  with this depth fails exactly on a cyclic structure.
\<close>

fun load :: "nat \<Rightarrow> cell list \<Rightarrow> hval \<Rightarrow> json option" where
  "load n h HNull = Some JNull"
| "load n h (HBool b) = Some (JBool b)"
| "load n h (HNum i) = Some (JNum i)"
| "load n h (HStr s) = Some (JStr s)"
| "load n h (HDate d) = Some (JDate d)"
| "load n h (HOid x) = Some (JOid x)"
| "load 0 h (HRef a) = None"
| "load (Suc n) h (HRef a) =
     (if a < length h
      then (case h ! a of
              CArr hvs \<Rightarrow> map_option JArr (those (map (load n h) hvs))
            | CObj hkvs \<Rightarrow>
                map_option JObj (those (map (\<lambda>(k, hv). map_option (Pair k) (load n h hv)) hkvs)))
      else None)"




text \<open>
  \<^verbatim>\<open>_.cloneDeep\<close> of an object in memory: its structure is read and built anew in
  fresh cells. (lodash also copies cyclic structures, which the model does not.)
\<close>

definition cloneDeepH :: "cell list \<Rightarrow> hval \<Rightarrow> error + hval \<times> cell list" where
  "cloneDeepH h hv =
     (case load (length h) h hv of
        Some v \<Rightarrow> Inr (alloc v h)
      | None \<Rightarrow> Inl (Unmodelled ''cloneDeep of a cyclic structure''))"



text \<open>\<^verbatim>\<open>x[k]\<close> for an object in memory (\<open>None\<close> is \<^verbatim>\<open>undefined\<close>), and \<^verbatim>\<open>!!x\<close>.\<close>

fun getPropH :: "cell list \<Rightarrow> hval \<Rightarrow> string \<Rightarrow> hval option" where
  "getPropH h (HRef a) k =
     (if a < length h then (case h ! a of CObj hkvs \<Rightarrow> getProp hkvs k | CArr hvs \<Rightarrow> None) else None)"
| "getPropH h hv k = None"

fun truthyH :: "hval \<Rightarrow> bool" where
  "truthyH HNull = False"
| "truthyH (HBool b) = b"
| "truthyH (HNum n) = (n \<noteq> 0)"
| "truthyH (HStr s) = (s \<noteq> [])"
| "truthyH hv = True"

section \<open>Values laid out in memory\<close>

text \<open>
  \<open>holds h lo hi hv v\<close>: in the heap \<open>h\<close> the heap value \<open>hv\<close> stands for the value \<open>v\<close>,
  laid out as a tree within the cells \<open>lo ..< hi\<close>: every array and object of \<open>v\<close> has
  a cell of its own there, the cells of its parts lie below it, and the parts of one
  array or object occupy consecutive, disjoint ranges. This is how \<open>alloc\<close> lays a
  value out, and it is what makes a write to one cell visible at exactly one place of
  the value.
\<close>

fun holds :: "cell list \<Rightarrow> nat \<Rightarrow> nat \<Rightarrow> hval \<Rightarrow> json \<Rightarrow> bool"
and holdsItems :: "cell list \<Rightarrow> nat \<Rightarrow> nat \<Rightarrow> hval list \<Rightarrow> json list \<Rightarrow> bool"
and holdsProps :: "cell list \<Rightarrow> nat \<Rightarrow> nat \<Rightarrow> (string \<times> hval) list \<Rightarrow> (string \<times> json) list \<Rightarrow> bool" where
  "holds h lo hi hv JNull = (hv = HNull \<and> lo \<le> hi)"
| "holds h lo hi hv (JBool b) = (hv = HBool b \<and> lo \<le> hi)"
| "holds h lo hi hv (JNum n) = (hv = HNum n \<and> lo \<le> hi)"
| "holds h lo hi hv (JStr s) = (hv = HStr s \<and> lo \<le> hi)"
| "holds h lo hi hv (JDate d) = (hv = HDate d \<and> lo \<le> hi)"
| "holds h lo hi hv (JOid x) = (hv = HOid x \<and> lo \<le> hi)"
| "holds h lo hi hv (JArr vs) =
     (\<exists>a hvs. hv = HRef a \<and> lo \<le> a \<and> a < hi \<and> hi \<le> length h \<and> h ! a = CArr hvs
        \<and> holdsItems h lo a hvs vs)"
| "holds h lo hi hv (JObj kvs) =
     (\<exists>a hkvs. hv = HRef a \<and> lo \<le> a \<and> a < hi \<and> hi \<le> length h \<and> h ! a = CObj hkvs
        \<and> holdsProps h lo a hkvs kvs)"
| "holdsItems h lo hi hvs [] = (hvs = [] \<and> lo \<le> hi)"
| "holdsItems h lo hi hvs (v # vs) =
     (\<exists>hv hvs' mid. hvs = hv # hvs' \<and> lo \<le> mid \<and> mid \<le> hi \<and> holds h lo mid hv v
        \<and> holdsItems h mid hi hvs' vs)"
| "holdsProps h lo hi hkvs [] = (hkvs = [] \<and> lo \<le> hi)"
| "holdsProps h lo hi hkvs ((k, v) # kvs) =
     (\<exists>hv hkvs' mid. hkvs = (k, hv) # hkvs' \<and> lo \<le> mid \<and> mid \<le> hi \<and> holds h lo mid hv v
        \<and> holdsProps h mid hi hkvs' kvs)"

section \<open>The Document Store: update through references\<close>

text \<open>
  What the closure \<^verbatim>\<open>commit\<close> of \<^verbatim>\<open>findOneAndUpdate\<close> captures: the request context,
  the filter, and the reference \<^verbatim>\<open>originalDocument\<close> to the fetched document (not
  the copy that is returned).
\<close>

record CommitEnv =
  env_rc :: IRequestContext
  env_filter :: "(string \<times> json) list"
  env_originalDocument :: hval

text \<open>
  \<^verbatim>\<open>findOneAndUpdate\<close>: the fetched document becomes an object in memory, and the
  caller gets a deep copy of it together with the closure. The collection is only
  read; it is returned to make that explicit.
\<close>

definition findOneAndUpdate ::
  "runtime \<Rightarrow> Storage \<Rightarrow> IRequestContext \<Rightarrow> (string \<times> json) list \<Rightarrow> cell list
   \<Rightarrow> (string \<times> json) list list
   \<Rightarrow> (error + hval \<times> CommitEnv) \<times> cell list \<times> (string \<times> json) list list" where
  "findOneAndUpdate rt st rc fltr h coll =
     (case findOne rt st fltr coll of
        Inl e \<Rightarrow> (Inl e, h, coll)
      | Inr doc \<Rightarrow>
          (case alloc (JObj doc) h of (originalDocument, h1) \<Rightarrow>
             (case cloneDeepH h1 originalDocument of
                Inl e \<Rightarrow> (Inl e, h1, coll)
              | Inr (copy, h2) \<Rightarrow>
                  (Inr (copy, \<lparr>env_rc = rc, env_filter = fltr, env_originalDocument = originalDocument\<rparr>),
                   h2, coll))))"



text \<open>
  \<^verbatim>\<open>findOneSubdocumentAndUpdate\<close>. \<^verbatim>\<open>originalDocument[subdocumentPath].find\<close> is a
  \<^verbatim>\<open>TypeError\<close> unless the property is an array; \<^verbatim>\<open>.find\<close> gives the first element
  the predicate accepts, and a result that is missing or falsy is the \<open>Error\<close>
  \<^verbatim>\<open>Resource doesn't exist on ...\<close>. The predicate sees the element as a value.
\<close>

definition arrayFind :: "(json \<Rightarrow> bool) \<Rightarrow> cell list \<Rightarrow> hval list \<Rightarrow> hval option" where
  "arrayFind subdocumentPredicate h hvs =
     find (\<lambda>hv. case load (length h) h hv of Some v \<Rightarrow> subdocumentPredicate v | None \<Rightarrow> False) hvs"

definition findOneSubdocumentAndUpdate ::
  "runtime \<Rightarrow> Storage \<Rightarrow> IRequestContext \<Rightarrow> (string \<times> json) list \<Rightarrow> string \<Rightarrow> (json \<Rightarrow> bool)
   \<Rightarrow> cell list \<Rightarrow> (string \<times> json) list list
   \<Rightarrow> (error + hval \<times> hval \<times> CommitEnv) \<times> cell list \<times> (string \<times> json) list list" where
  "findOneSubdocumentAndUpdate rt st rc filterParent subdocumentPath subdocumentPredicate h coll =
     (case findOneAndUpdate rt st rc filterParent h coll of
        (Inl e, h', coll') \<Rightarrow> (Inl e, h', coll')
      | (Inr (originalDocument, env), h', coll') \<Rightarrow>
          (case getPropH h' originalDocument subdocumentPath of
             None \<Rightarrow> (Inl (TypeError ''Cannot read property find of undefined''), h', coll')
           | Some HNull \<Rightarrow> (Inl (TypeError ''Cannot read property find of null''), h', coll')
           | Some (HRef a) \<Rightarrow>
               (case (if a < length h' then h' ! a else CObj []) of
                  CArr hvs \<Rightarrow>
                    (case arrayFind subdocumentPredicate h' hvs of
                       Some subdocumentReference \<Rightarrow>
                         if truthyH subdocumentReference
                         then (Inr (originalDocument, subdocumentReference, env), h', coll')
                         else (Inl (Error (''Resource doesn't exist on '' @ documentName st
                                           @ idSuffix rt filterParent)), h', coll')
                     | None \<Rightarrow>
                         (Inl (Error (''Resource doesn't exist on '' @ documentName st
                                      @ idSuffix rt filterParent)), h', coll'))
                | CObj hkvs \<Rightarrow> (Inl (TypeError ''find is not a function''), h', coll'))
           | Some hv \<Rightarrow> (Inl (TypeError ''find is not a function''), h', coll')))"

section \<open>Filter translation (\<^verbatim>\<open>findMany\<close>)\<close>

text \<open>
  The inner function \<^verbatim>\<open>dateToFilter\<close> of \<^verbatim>\<open>findMany\<close>: a \<^verbatim>\<open>switch\<close> over three
  keys with no \<^verbatim>\<open>default\<close>, so that for any other key the function falls off its end
  and returns \<^verbatim>\<open>undefined\<close>, here \<open>None\<close>.
\<close>

definition dateToFilter :: "runtime \<Rightarrow> string \<Rightarrow> int \<Rightarrow> (string \<times> json) option" where
  "dateToFilter rt k v =
     (if k = ''purchasedAfter'' then Some (''purchaseDate'', JObj [(''$gt'', JStr (toISOString rt v))])
      else if k = ''updatedAfter'' then Some (''lastChanged'', JObj [(''$gt'', JStr (toISOString rt v))])
      else if k = ''shouldShipBy'' then Some (''latestShipDate'', JObj [(''$lt'', JStr (toISOString rt v))])
      else None)"

text \<open>
  The callback of \<^verbatim>\<open>.map\<close>:
  \<^verbatim>\<open>v instanceof Date ? dateToFilter(k, v) : Array.isArray(v) ? [k, { $in: v }] : [k, v]\<close>.
\<close>

fun filterEntry :: "runtime \<Rightarrow> string \<times> json \<Rightarrow> (string \<times> json) option" where
  "filterEntry rt (k, JDate d) = dateToFilter rt k d"
| "filterEntry rt (k, JArr vs) = Some (k, JObj [(''$in'', JArr vs)])"
| "filterEntry rt (k, v) = Some (k, v)"

text \<open>
  lodash's \<^verbatim>\<open>_.fromPairs\<close>: \<^verbatim>\<open>result[pair[0]] = pair[1]\<close> for each pair in turn.
  Reading index 0 of a pair that is \<^verbatim>\<open>undefined\<close> raises a \<^verbatim>\<open>TypeError\<close>.
\<close>

fun fromPairs_loop ::
  "(string \<times> json) option list \<Rightarrow> (string \<times> json) list \<Rightarrow> error + (string \<times> json) list" where
  "fromPairs_loop [] result = Inr result"
| "fromPairs_loop (None # pairs) result = Inl (TypeError ''Cannot read property 0 of undefined'')"
| "fromPairs_loop (Some (k, v) # pairs) result = fromPairs_loop pairs (setProp result k v)"

definition fromPairs :: "(string \<times> json) option list \<Rightarrow> error + (string \<times> json) list" where
  "fromPairs pairs = fromPairs_loop pairs []"

text \<open>The constant \<^verbatim>\<open>mongoFilter\<close> of \<^verbatim>\<open>findMany\<close>, computed from its \<open>filter\<close> argument.\<close>

definition mongoFilter :: "runtime \<Rightarrow> (string \<times> json) list \<Rightarrow> error + (string \<times> json) list" where
  "mongoFilter rt fltr =
     fromPairs (map (filterEntry rt) (filter (\<lambda>(k, v). truthy v) fltr))"

section \<open>Index reconciliation (Collection Bootstrapper)\<close>

text \<open>
  An index specification as the MongoDB driver has it: a key pattern and an optional
  name. The key pattern is a type parameter, since \<^verbatim>\<open>ensureIndexes\<close> only ever looks
  at it through \<^verbatim>\<open>JSON.stringify\<close>, which is the parameter \<open>stringify\<close> below. Index
  descriptions returned by \<^verbatim>\<open>listIndexes\<close> have the same two fields (their name is
  always present). \<open>background\<close> is the flag \<^verbatim>\<open>ensureIndexes\<close> adds on creation.
\<close>

record 'k IndexSpecification =
  key :: 'k
  name :: "string option"
  background :: bool

text \<open>\<^verbatim>\<open>const ixSpecificationIdentity = (i) => JSON.stringify(i.key)\<close>\<close>

definition ixSpecificationIdentity ::
  "('k \<Rightarrow> string) \<Rightarrow> 'k IndexSpecification \<Rightarrow> string" where
  "ixSpecificationIdentity stringify i = stringify (key i)"

text \<open>
  lodash's \<^verbatim>\<open>_.differenceBy(array, values, iteratee)\<close>: the elements of \<open>array\<close>, in
  order and with their repetitions, whose image under \<open>iteratee\<close> is not the image of
  any element of \<open>values\<close>.
\<close>

fun differenceBy :: "'a list \<Rightarrow> 'a list \<Rightarrow> ('a \<Rightarrow> 'b) \<Rightarrow> 'a list" where
  "differenceBy [] vals iteratee = []"
| "differenceBy (x # array) vals iteratee =
     (if iteratee x \<in> set (map iteratee vals)
      then differenceBy array vals iteratee
      else x # differenceBy array vals iteratee)"

text \<open>
  The two lists \<^verbatim>\<open>ensureIndexes\<close> computes from the desired specifications
  \<open>indexes\<close> and the listed \<open>existingIndexes\<close>; \<open>pk\<close> is the key pattern
  \<^verbatim>\<open>{ _id: 1 }\<close>.
\<close>

definition newIndexes ::
  "('k \<Rightarrow> string) \<Rightarrow> 'k IndexSpecification list \<Rightarrow> 'k IndexSpecification list
   \<Rightarrow> 'k IndexSpecification list" where
  "newIndexes stringify indexes existingIndexes =
     differenceBy indexes existingIndexes (ixSpecificationIdentity stringify)"

definition removedIndexes ::
  "('k \<Rightarrow> string) \<Rightarrow> 'k \<Rightarrow> 'k IndexSpecification list \<Rightarrow> 'k IndexSpecification list
   \<Rightarrow> 'k IndexSpecification list" where
  "removedIndexes stringify pk indexes existingIndexes =
     filter (\<lambda>index. ixSpecificationIdentity stringify index \<noteq> stringify pk)
       (differenceBy existingIndexes indexes (ixSpecificationIdentity stringify))"

text \<open>
  Modelled from the spec: the database collaborator's index operations (the MongoDB
  driver, not part of the repository). Index names are unique within a collection.
  \<open>createIndexes\<close> adds the given specifications to the live index list, naming an
  unnamed one with \<open>autoName\<close> of its key pattern, and is rejected when a name is
  already in use; \<open>dropIndex\<close> removes the index of the given name, and called
  without a name (\<^verbatim>\<open>undefined\<close>) it is rejected.
\<close>

definition named :: "('k \<Rightarrow> string) \<Rightarrow> 'k IndexSpecification \<Rightarrow> 'k IndexSpecification" where
  "named autoName s =
     s\<lparr>name := Some (case name s of Some n \<Rightarrow> n | None \<Rightarrow> autoName (key s))\<rparr>"

definition createIndexes ::
  "('k \<Rightarrow> string) \<Rightarrow> 'k IndexSpecification list \<Rightarrow> 'k IndexSpecification list
   \<Rightarrow> error + 'k IndexSpecification list" where
  "createIndexes autoName specs live =
     (let created = map (named autoName) specs
      in if distinct (map name created) \<and> (\<forall>c \<in> set created. name c \<notin> set (map name live))
         then Inr (live @ created)
         else Inl (MongoError ''an index of this name already exists''))"

definition dropIndex ::
  "string option \<Rightarrow> 'k IndexSpecification list \<Rightarrow> error + 'k IndexSpecification list" where
  "dropIndex n live =
     (case n of
        None \<Rightarrow> Inl (MongoError ''index name must be a string'')
      | Some m \<Rightarrow> Inr (filter (\<lambda>i. name i \<noteq> Some m) live))"

text \<open>The loop \<^verbatim>\<open>for (const index of removedIndexes) await dropIndex(index.name)\<close>.\<close>

fun dropAll ::
  "'k IndexSpecification list \<Rightarrow> 'k IndexSpecification list
   \<Rightarrow> error + 'k IndexSpecification list" where
  "dropAll [] live = Inr live"
| "dropAll (index # rest) live =
     (case dropIndex (name index) live of
        Inl e \<Rightarrow> Inl e
      | Inr live' \<Rightarrow> dropAll rest live')"

text \<open>
  \<^verbatim>\<open>ensureIndexes\<close> as a transformer of the collection's live index list (logging left
  out): list, compute the two differences, create when there is something to create,
  drop one by one when there is something to drop.
\<close>

definition ensureIndexes ::
  "('k \<Rightarrow> string) \<Rightarrow> 'k \<Rightarrow> ('k \<Rightarrow> string) \<Rightarrow> 'k IndexSpecification list
   \<Rightarrow> 'k IndexSpecification list \<Rightarrow> error + 'k IndexSpecification list" where
  "ensureIndexes stringify pk autoName indexes live =
     (let existingIndexes = live;
          new = newIndexes stringify indexes existingIndexes;
          removed = removedIndexes stringify pk indexes existingIndexes
      in case (if new \<noteq> []
               then createIndexes autoName (map (\<lambda>i. i\<lparr>background := True\<rparr>) new) live
               else Inr live) of
           Inl e \<Rightarrow> Inl e
         | Inr live1 \<Rightarrow> if removed \<noteq> [] then dropAll removed live1 else Inr live1)"

section \<open>A configuration for evaluated examples\<close>

text \<open>
  Stand-ins for the collaborators, used where a theorem is evaluated on a concrete
  input. \<open>testIsValid\<close> accepts what \<^verbatim>\<open>ObjectId.isValid\<close> accepts among the values of
  the model: a number, an \<^verbatim>\<open>ObjectId\<close>, a string of 12 characters and a string of 24
  hexadecimal digits. \<open>testNewObjectId\<close> gives the identifier of
  \<^verbatim>\<open>new ObjectId(value)\<close> for strings and \<^verbatim>\<open>ObjectId\<close>s (for a string of 12 characters,
  the hexadecimal digits of its bytes). \<open>testGenerate\<close> gives the identifier generated
  for a number: four bytes of the number (the time in seconds), five bytes that are
  fixed for the process and three bytes of the counter, which goes up by one.
\<close>

definition hexDigits :: "char \<Rightarrow> string" where
  "hexDigits c = [''0123456789abcdef'' ! (of_char c div 16), ''0123456789abcdef'' ! (of_char c mod 16)]"

fun testIsValid :: "json \<Rightarrow> bool" where
  "testIsValid (JNum n) = True"
| "testIsValid (JOid h) = True"
| "testIsValid (JStr s) =
     (length s = 12 \<or> (length s = 24 \<and> list_all (\<lambda>c. c \<in> set ''0123456789abcdefABCDEF'') s))"
| "testIsValid v = False"

fun testNewObjectId :: "json \<Rightarrow> string" where
  "testNewObjectId (JOid h) = h"
| "testNewObjectId (JStr s) = (if length s = 12 then concat (map hexDigits s) else s)"
| "testNewObjectId v = ''000000000000000000000000''"

definition testGenerate :: "nat \<Rightarrow> int \<Rightarrow> string \<times> nat" where
  "testGenerate s n =
     (hexDigits (char_of (nat n div 16777216)) @ hexDigits (char_of (nat n div 65536))
      @ hexDigits (char_of (nat n div 256)) @ hexDigits (char_of (nat n))
      @ ''a1b2c3d4e5''
      @ hexDigits (char_of (s div 65536)) @ hexDigits (char_of (s div 256)) @ hexDigits (char_of s),
      Suc s)"

fun testToString :: "json \<Rightarrow> string" where
  "testToString (JStr s) = s"
| "testToString (JOid h) = h"
| "testToString v = ''[object Object]''"

definition testRuntime :: runtime where
  "testRuntime =
     \<lparr>toISOString = (\<lambda>t. ''1970-01-01T00:00:00.000Z''), isValid = testIsValid,
      newObjectId = testNewObjectId, generate = testGenerate, toString = testToString\<rparr>"

text \<open>
  A store of documents named \<^verbatim>\<open>order\<close> in the collection \<^verbatim>\<open>purchases\<close>. Its schema
  requires the string \<^verbatim>\<open>someField\<close>, knows \<^verbatim>\<open>subResource\<close> and \<^verbatim>\<open>changelogs\<close>
  besides, and strips every other key from the value it returns. A filter matches
  the documents that have each of its properties.
\<close>

fun testSchema :: "json \<Rightarrow> string option \<times> json" where
  "testSchema (JObj kvs) =
     (case getProp kvs ''someField'' of
        Some (JStr s) \<Rightarrow>
          (None, JObj (filter (\<lambda>(k, v). k \<in> set [''someField'', ''subResource'', ''changelogs'']) kvs))
      | Some v \<Rightarrow> (Some ''someField must be a string'', JObj kvs)
      | None \<Rightarrow> (Some ''someField is required'', JObj kvs))"
| "testSchema v = (Some ''value must be an object'', v)"

definition testStorage :: Storage where
  "testStorage =
     \<lparr>documentName = ''order'', collectionName = ''purchases'', documentSchema = testSchema,
      convert = (\<lambda>d. d), matches = (\<lambda>f d. list_all (\<lambda>(k, v). getProp d k = Some v) f)\<rparr>"

definition testRc :: IRequestContext where
  "testRc = \<lparr>ip = ''192.168.0.66'', token = ''X-9a8dF2'', endpoint = ''POST /resources''\<rparr>"






text \<open>
  A document and an update of it that grows an array by three items, replaces a
  nested object by one with a key less, a key changed and a key more, and adds a
  top-level field.
\<close>

definition testBefore :: "(string \<times> json) list" where
  "testBefore =
     [(''id'', JNum 1),
      (''tags'', JArr [JStr ''a'']),
      (''address'', JObj [(''city'', JStr ''Brno''), (''zip'', JStr ''60200'')])]"

definition testAfterPartial :: "(string \<times> json) list" where
  "testAfterPartial =
     [(''tags'', JArr [JStr ''a'', JStr ''b'', JStr ''c'', JStr ''d'']),
      (''address'', JObj [(''zip'', JStr ''61200''), (''street'', JStr ''Kounicova'')]),
      (''note'', JStr ''fragile'')]"

section \<open>Properties of property lists and serialization\<close>

lemma getProp_setProp:
  "getProp (setProp kvs k v) k' = (if k' = k then Some v else getProp kvs k')"
  by (induction kvs) auto

lemma getProp_deleteProp:
  "getProp (deleteProp kvs k) k' = (if k' = k then None else getProp kvs k')"
  by (induction kvs) (auto simp: deleteProp_def)

lemma getProp_map_values:
  "getProp (map (\<lambda>(k, v). (k, f k v)) kvs) k = map_option (f k) (getProp kvs k)"
  by (induction kvs) auto

lemma props_serializePure:
  "props (serializePure rt (JObj kvs)) =
     map (\<lambda>(k, v). (k, reviverPure rt k (revivePure rt (jsonCopy rt v)))) kvs"
  by (simp add: serializePure_def comp_def case_prod_unfold)

lemma getProp_serializePure:
  "getProp (props (serializePure rt (JObj kvs))) k =
     map_option (\<lambda>v. reviverPure rt k (revivePure rt (jsonCopy rt v))) (getProp kvs k)"
  unfolding props_serializePure by (rule getProp_map_values)






lemma createChangelog_empty:
  "createChangelog rt now rc [] [] =
     \<lparr>ip = ip rc, token = token rc, endpoint = endpoint rc, timestamp = now, changes = []\<rparr>"
  by (simp add: createChangelog_def diff_def assign_def newProps_def)

section \<open>Properties of \<^verbatim>\<open>insertOne\<close>\<close>

lemma reviveProps_keys: "map fst (fst (reviveProps rt kvs s)) = map fst kvs"
  by (induction kvs arbitrary: s) (auto simp: case_prod_unfold)

lemma getProp_reviveProps_None:
  "getProp kvs k = None \<Longrightarrow> getProp (fst (reviveProps rt kvs s)) k = None"
  by (induction kvs arbitrary: s) (auto simp: case_prod_unfold split: if_splits)


lemma props_serialize:
  "props (fst (serialize rt (JObj kvs) s))
     = fst (reviveProps rt (map (\<lambda>(k, v). (k, jsonCopy rt v)) kvs) s)"
  by (simp add: serialize_def split: prod.splits)

lemma getProp_serialize_None:
  "getProp kvs k = None \<Longrightarrow> getProp (props (fst (serialize rt (JObj kvs) s))) k = None"
  unfolding props_serialize
  by (rule getProp_reviveProps_None) (simp add: getProp_map_values)


lemma insertOne_valid:
  assumes "validate st (JObj document) = Inr checked"
  shows "insertOne rt st now newId rc document s coll =
           (case db_insertOne newId
                   (setProp (props (fst (serialize rt (JObj document) s))) ''changelogs''
                      (JArr [JObj [(''ip'', JStr (ip rc)), (''token'', JStr (token rc)),
                                   (''endpoint'', JStr (endpoint rc)), (''timestamp'', JDate now),
                                   (''changes'', JArr [])]]))
                   coll of
              Inl e \<Rightarrow> (Inl e, snd (serialize rt (JObj document) s), coll)
            | Inr (ops0, coll') \<Rightarrow>
                (Inr (mapDocumentFromDb st (deleteProp ops0 ''_id'')),
                 snd (serialize rt (JObj document) s), coll'))"
  using assms
  by (simp add: insertOne_def createChangelog_empty changelogJson_def assign_def case_prod_unfold)

text \<open>
  What the database does with the document \<open>insertOne\<close> hands it, by whether the
  \<^verbatim>\<open>_id\<close> the document has, or else the one the driver gives it, is in the collection.
\<close>

lemma db_insertOne_cases:
  "db_insertOne newId doc coll =
     (if (case getProp doc ''_id'' of Some v \<Rightarrow> Some v | None \<Rightarrow> Some newId)
           \<in> set (map (\<lambda>d. getProp d ''_id'') coll)
      then Inl (MongoError ''E11000 duplicate key error'')
      else Inr (if getProp doc ''_id'' = None then setProp doc ''_id'' newId else doc,
                coll @ [if getProp doc ''_id'' = None then setProp doc ''_id'' newId else doc]))"
  by (cases "getProp doc ''_id''") (simp_all add: db_insertOne_def Let_def getProp_setProp)

lemma insertOne_stored:
  assumes valid: "validate st (JObj document) = Inr checked"
      and fresh: "(case getProp (props (fst (serialize rt (JObj document) s))) ''_id'' of
                     Some v \<Rightarrow> Some v | None \<Rightarrow> Some newId)
                  \<notin> set (map (\<lambda>d. getProp d ''_id'') coll)"
  shows "\<exists>stored.
           insertOne rt st now newId rc document s coll =
             (Inr (mapDocumentFromDb st (deleteProp stored ''_id'')),
              snd (serialize rt (JObj document) s), coll @ [stored])
         \<and> getProp stored ''changelogs'' =
             Some (JArr [JObj [(''ip'', JStr (ip rc)), (''token'', JStr (token rc)),
                               (''endpoint'', JStr (endpoint rc)), (''timestamp'', JDate now),
                               (''changes'', JArr [])]])
         \<and> getProp stored ''_id'' =
             (case getProp (props (fst (serialize rt (JObj document) s))) ''_id'' of
                Some v \<Rightarrow> Some v | None \<Rightarrow> Some newId)
         \<and> (\<forall>k. k \<noteq> ''changelogs'' \<longrightarrow> k \<noteq> ''_id'' \<longrightarrow>
                getProp stored k = getProp (props (fst (serialize rt (JObj document) s))) k)"
proof -
  define entry where
    "entry = JArr [JObj [(''ip'', JStr (ip rc)), (''token'', JStr (token rc)),
                         (''endpoint'', JStr (endpoint rc)), (''timestamp'', JDate now),
                         (''changes'', JArr [])]]"
  define ser where "ser = props (fst (serialize rt (JObj document) s))"
  define doc where "doc = setProp ser ''changelogs'' entry"
  define stored where "stored = (if getProp doc ''_id'' = None then setProp doc ''_id'' newId else doc)"
  have id: "getProp doc ''_id'' = getProp ser ''_id''"
    by (simp add: doc_def getProp_setProp)
  have "db_insertOne newId doc coll = Inr (stored, coll @ [stored])"
    using fresh unfolding db_insertOne_cases id stored_def ser_def by simp
  then have 1: "insertOne rt st now newId rc document s coll =
                  (Inr (mapDocumentFromDb st (deleteProp stored ''_id'')),
                   snd (serialize rt (JObj document) s), coll @ [stored])"
    unfolding insertOne_valid [OF valid] doc_def ser_def entry_def by simp
  have 2: "getProp stored ''changelogs'' = Some entry"
    by (simp add: stored_def doc_def getProp_setProp)
  have 3: "getProp stored ''_id'' = (case getProp ser ''_id'' of Some v \<Rightarrow> Some v | None \<Rightarrow> Some newId)"
    by (cases "getProp ser ''_id''") (simp_all add: stored_def id getProp_setProp)
  have 4: "getProp stored k = getProp ser k" if "k \<noteq> ''changelogs''" "k \<noteq> ''_id''" for k
    using that by (simp add: stored_def doc_def getProp_setProp)
  show ?thesis
    using 1 2 3 4 unfolding entry_def ser_def by blast
qed

text \<open>
  Claim C4 (as amended). Let the document pass validation, and let its \<^verbatim>\<open>_id\<close> (the
  one its serialization has, or else the one the driver generates) not be the \<^verbatim>\<open>_id\<close>
  of a document of the collection. Then \<open>insertOne\<close> adds exactly one document
  \<open>stored\<close> to the collection. Its \<^verbatim>\<open>changelogs\<close> is a one-element array whose entry
  has the token, ip and endpoint of the request context and an empty list of changes;
  its \<^verbatim>\<open>_id\<close> is the one named above; and every other property it has is a property
  of the serialized input, and the other way round. What is returned is
  \<open>mapDocumentFromDb\<close> of the stored document without \<^verbatim>\<open>_id\<close>; it has no \<^verbatim>\<open>_id\<close> as
  long as the converter does not add one.
\<close>

theorem insertOne_provenance:
  assumes valid: "validate st (JObj document) = Inr checked"
      and fresh: "(case getProp (props (fst (serialize rt (JObj document) s))) ''_id'' of
                     Some v \<Rightarrow> Some v | None \<Rightarrow> Some newId)
                  \<notin> set (map (\<lambda>d. getProp d ''_id'') coll)"
  shows "\<exists>stored.
           insertOne rt st now newId rc document s coll =
             (Inr (mapDocumentFromDb st (deleteProp stored ''_id'')),
              snd (serialize rt (JObj document) s), coll @ [stored])
         \<and> getProp stored ''changelogs'' =
             Some (JArr [JObj [(''ip'', JStr (ip rc)), (''token'', JStr (token rc)),
                               (''endpoint'', JStr (endpoint rc)), (''timestamp'', JDate now),
                               (''changes'', JArr [])]])
         \<and> getProp stored ''_id'' =
             (case getProp (props (fst (serialize rt (JObj document) s))) ''_id'' of
                Some v \<Rightarrow> Some v | None \<Rightarrow> Some newId)
         \<and> (\<forall>k. k \<noteq> ''changelogs'' \<longrightarrow> k \<noteq> ''_id'' \<longrightarrow>
                getProp stored k = getProp (props (fst (serialize rt (JObj document) s))) k)
         \<and> getProp (deleteProp stored ''_id'') ''_id'' = None
         \<and> ((\<forall>d. getProp d ''_id'' = None \<longrightarrow> getProp (convert st d) ''_id'' = None)
              \<longrightarrow> getProp (mapDocumentFromDb st (deleteProp stored ''_id'')) ''_id'' = None)"
proof -
  from insertOne_stored [OF valid fresh, of now rc] obtain stored where
    s: "insertOne rt st now newId rc document s coll =
             (Inr (mapDocumentFromDb st (deleteProp stored ''_id'')),
              snd (serialize rt (JObj document) s), coll @ [stored])"
       "getProp stored ''changelogs'' =
             Some (JArr [JObj [(''ip'', JStr (ip rc)), (''token'', JStr (token rc)),
                               (''endpoint'', JStr (endpoint rc)), (''timestamp'', JDate now),
                               (''changes'', JArr [])]])"
       "getProp stored ''_id'' =
             (case getProp (props (fst (serialize rt (JObj document) s))) ''_id'' of
                Some v \<Rightarrow> Some v | None \<Rightarrow> Some newId)"
       "\<forall>k. k \<noteq> ''changelogs'' \<longrightarrow> k \<noteq> ''_id'' \<longrightarrow>
                getProp stored k = getProp (props (fst (serialize rt (JObj document) s))) k"
    by blast
  have 4: "getProp (deleteProp stored ''_id'') ''_id'' = None"
    by (simp add: getProp_deleteProp)
  have 5: "getProp (mapDocumentFromDb st (deleteProp stored ''_id'')) ''_id'' = None"
    if "\<forall>d. getProp d ''_id'' = None \<longrightarrow> getProp (convert st d) ''_id'' = None"
    using that 4 by (simp add: mapDocumentFromDb_def)
  show ?thesis
    using s 4 5 by blast
qed

theorem insertOne_provenance_witness:
  "validate testStorage (JObj [(''someField'', JStr ''yomama'')])
     = Inr (JObj [(''someField'', JStr ''yomama'')])
   \<and> Some (JOid ''5ecfb65da04c74056eaa32d8'')
       \<notin> set (map (\<lambda>d. getProp d ''_id'') [[(''_id'', JOid ''5ecfb65da04c74056eaa32d7'')]])
   \<and> insertOne testRuntime testStorage 1590498141435 (JOid ''5ecfb65da04c74056eaa32d8'') testRc
        [(''someField'', JStr ''yomama'')] 0 [[(''_id'', JOid ''5ecfb65da04c74056eaa32d7'')]]
     = (Inr [(''someField'', JStr ''yomama''),
             (''changelogs'', JArr [JObj [(''ip'', JStr ''192.168.0.66''), (''token'', JStr ''X-9a8dF2''),
                (''endpoint'', JStr ''POST /resources''), (''timestamp'', JDate 1590498141435),
                (''changes'', JArr [])]])],
        0,
        [[(''_id'', JOid ''5ecfb65da04c74056eaa32d7'')],
         [(''someField'', JStr ''yomama''),
          (''changelogs'', JArr [JObj [(''ip'', JStr ''192.168.0.66''), (''token'', JStr ''X-9a8dF2''),
                (''endpoint'', JStr ''POST /resources''), (''timestamp'', JDate 1590498141435),
                (''changes'', JArr [])]]),
          (''_id'', JOid ''5ecfb65da04c74056eaa32d8'')]])"
  using insertOne_provenance [where st = testStorage
      and document = "[(''someField'', JStr ''yomama'')]"
      and checked = "JObj [(''someField'', JStr ''yomama'')]" and rt = testRuntime and s = 0
      and newId = "JOid ''5ecfb65da04c74056eaa32d8''"
      and coll = "[[(''_id'', JOid ''5ecfb65da04c74056eaa32d7'')]]"
      and now = 1590498141435 and rc = testRc]
  by (simp add: validate_def testStorage_def testRc_def testRuntime_def insertOne_def
        db_insertOne_def serialize_def reviver_def endsWith_def assign_def deleteProp_def
        mapDocumentFromDb_def createChangelog_empty changelogJson_def Let_def)

text \<open>
  The claim as stated fails for a document whose \<^verbatim>\<open>_id\<close> is already in the
  collection: the document below passes validation, the database rejects it, and
  nothing is persisted.
\<close>

theorem insertOne_provenance_counterexample:
  "validate testStorage (JObj [(''_id'', JStr ''a1''), (''someField'', JStr ''yomama'')])
     = Inr (JObj [(''someField'', JStr ''yomama'')])
   \<and> insertOne testRuntime testStorage 0 (JOid ''5ecfb65da04c74056eaa32d8'') testRc
        [(''_id'', JStr ''a1''), (''someField'', JStr ''yomama'')] 0
        [[(''_id'', JStr ''a1''), (''someField'', JStr ''hello'')]]
     = (Inl (MongoError ''E11000 duplicate key error''), 0,
        [[(''_id'', JStr ''a1''), (''someField'', JStr ''hello'')]])"
  by (simp add: validate_def testStorage_def testRc_def testRuntime_def insertOne_def
        db_insertOne_def serialize_def reviver_def endsWith_def assign_def deleteProp_def
        mapDocumentFromDb_def createChangelog_empty changelogJson_def Let_def)

text \<open>
  Claim C7 (as amended). When the schema rejects the document, \<open>insertOne\<close> raises an
  \<open>Error\<close> whose message is \<^verbatim>\<open>Error validating '<collectionName>' document: \<close>
  followed by the message of the schema violation, and leaves the collection (and the
  generator state) as it is. The message names the collection, not the document type.
\<close>

theorem insertOne_invalid:
  assumes "documentSchema st (JObj document) = (Some message, checked)"
  shows "insertOne rt st now newId rc document s coll =
           (Inl (Error (''Error validating '' @ [CHR 0x27] @ collectionName st @ [CHR 0x27]
                        @ '' document: '' @ message)), s, coll)"
  using assms by (simp add: insertOne_def validate_def)

theorem insertOne_invalid_witness:
  "documentSchema testStorage (JObj [(''someField'', JNum 7)])
     = (Some ''someField must be a string'', JObj [(''someField'', JNum 7)])
   \<and> insertOne testRuntime testStorage 0 (JOid ''5ecfb65da04c74056eaa32d8'') testRc
        [(''someField'', JNum 7)] 0 [[(''_id'', JStr ''a'')]]
     = (Inl (Error ''Error validating 'purchases' document: someField must be a string''), 0,
        [[(''_id'', JStr ''a'')]])"
  using insertOne_invalid [where st = testStorage and document = "[(''someField'', JNum 7)]"
      and message = "''someField must be a string''"
      and checked = "JObj [(''someField'', JNum 7)]" and rt = testRuntime and now = 0
      and newId = "JOid ''5ecfb65da04c74056eaa32d8''" and rc = testRc and s = 0
      and coll = "[[(''_id'', JStr ''a'')]]"]
  by (simp add: testStorage_def)

text \<open>
  The claim as stated fails: for the store of \<^verbatim>\<open>order\<close> documents in the collection
  \<^verbatim>\<open>purchases\<close>, the message of the validation error does not contain the document
  type.
\<close>

theorem insertOne_invalid_counterexample:
  "insertOne testRuntime testStorage 0 (JOid ''5ecfb65da04c74056eaa32d8'') testRc [] 0 []
     = (Inl (Error ''Error validating 'purchases' document: someField is required''), 0, [])
   \<and> documentName testStorage = ''order''
   \<and> \<not> sublist ''order'' ''Error validating 'purchases' document: someField is required''"
  by (simp add: insertOne_def validate_def testStorage_def sublist_Cons_right)

lemma validate_part_005_message:
  assumes "documentSchema st (JObj document) = (Some message, checked)"
  shows "validate_part_005 st (JObj document) =
           Inl (Error (''Error validating '' @ [CHR 0x27] @ documentName st @ [CHR 0x27] @ '': '' @ message))"
  using assms by (simp add: validate_part_005_def)




section \<open>Properties of the Changelog Builder\<close>

text \<open>
  Claim C3. For the document and the update of the spec's example scenario,
  \<open>createChangelog\<close> yields exactly four edits, in this order: the edit of
  \<^verbatim>\<open>someField\<close>, the array change at index 1 of \<^verbatim>\<open>nested\<close>, the edit of
  \<^verbatim>\<open>nested[0].oh\<close> and the new key \<^verbatim>\<open>nested[0].hi\<close>; there is no edit for the
  untouched keys \<^verbatim>\<open>how\<close> and \<^verbatim>\<open>you\<close>.
\<close>

theorem createChangelog_example:
  "changes (createChangelog rt now rc
      [(''someField'', JStr ''hey''), (''how'', JStr ''do''), (''you'', JStr ''do''),
       (''nested'', JArr [JObj [(''oh'', JStr ''no'')]])]
      [(''someField'', JStr ''hello''), (''how'', JStr ''do''),
       (''nested'', JArr [JObj [(''oh'', JStr ''maybe''), (''hi'', JStr ''howAreYou'')],
                          JObj [(''oh'', JStr ''yeah'')]])])
   = [Edited [Key ''someField''] (JStr ''hey'') (JStr ''hello''),
      ArrayChange [Key ''nested''] 1 (New [] (JObj [(''oh'', JStr ''yeah'')])),
      Edited [Key ''nested'', Index 0, Key ''oh''] (JStr ''no'') (JStr ''maybe''),
      New [Key ''nested'', Index 0, Key ''hi''] (JStr ''howAreYou'')]"
  by (simp add: createChangelog_def diff_def assign_def arrayTail_def newProps_def upt_rec)

section \<open>Properties of filter translation\<close>

lemma fromPairs_loop_undefined:
  "None \<in> set pairs \<Longrightarrow>
   fromPairs_loop pairs result = Inl (TypeError ''Cannot read property 0 of undefined'')"
proof (induction pairs arbitrary: result)
  case Nil
  then show ?case by simp
next
  case (Cons p pairs)
  show ?case
  proof (cases p)
    case None
    then show ?thesis by simp
  next
    case (Some kv)
    with Cons show ?thesis by (cases kv) simp
  qed
qed

lemma mongoFilter_unrecognised_date:
  assumes "(k, JDate d) \<in> set fltr"
      and "k \<noteq> ''purchasedAfter''" "k \<noteq> ''updatedAfter''" "k \<noteq> ''shouldShipBy''"
  shows "mongoFilter rt fltr = Inl (TypeError ''Cannot read property 0 of undefined'')"
proof -
  have "filterEntry rt (k, JDate d) = None"
    using assms(2-4) by (simp add: dateToFilter_def)
  moreover have "(k, JDate d) \<in> set (filter (\<lambda>(k, v). truthy v) fltr)"
    using assms(1) by simp
  ultimately have "None \<in> set (map (filterEntry rt) (filter (\<lambda>(k, v). truthy v) fltr))"
    by (metis image_eqI set_map)
  then show ?thesis
    unfolding mongoFilter_def fromPairs_def by (rule fromPairs_loop_undefined)
qed

text \<open>
  Claim C6. The native filter \<^verbatim>\<open>findMany\<close> computes from a filter with one
  date-valued entry: under the keys \<^verbatim>\<open>purchasedAfter\<close>, \<^verbatim>\<open>updatedAfter\<close> and
  \<^verbatim>\<open>shouldShipBy\<close> it is the strict comparison \<^verbatim>\<open>$gt\<close> (on \<^verbatim>\<open>purchaseDate\<close>,
  \<^verbatim>\<open>lastChanged\<close>) or \<^verbatim>\<open>$lt\<close> (on \<^verbatim>\<open>latestShipDate\<close>) against the date's ISO
  string; under any other key no filter is computed at all: \<^verbatim>\<open>dateToFilter\<close> returns
  \<^verbatim>\<open>undefined\<close> and \<^verbatim>\<open>_.fromPairs\<close> raises a \<^verbatim>\<open>TypeError\<close>, where the claim has
  the entry passed through as an equality test.
\<close>

theorem mongoFilter_date_entry:
  "mongoFilter rt [(k, JDate d)] =
     (if k = ''purchasedAfter'' then Inr [(''purchaseDate'', JObj [(''$gt'', JStr (toISOString rt d))])]
      else if k = ''updatedAfter'' then Inr [(''lastChanged'', JObj [(''$gt'', JStr (toISOString rt d))])]
      else if k = ''shouldShipBy'' then Inr [(''latestShipDate'', JObj [(''$lt'', JStr (toISOString rt d))])]
      else Inl (TypeError ''Cannot read property 0 of undefined''))"
  by (simp add: mongoFilter_def fromPairs_def dateToFilter_def)

section \<open>Properties of index reconciliation\<close>

lemma differenceBy_filter:
  "differenceBy xs ys f = filter (\<lambda>x. f x \<notin> f ` set ys) xs"
  by (induction xs) auto

lemma set_newIndexes:
  "set (newIndexes stringify indexes existing) =
     {i \<in> set indexes. \<forall>e \<in> set existing. stringify (key e) \<noteq> stringify (key i)}"
  by (auto simp: newIndexes_def differenceBy_filter ixSpecificationIdentity_def image_iff)

lemma set_removedIndexes:
  "set (removedIndexes stringify pk indexes existing) =
     {e \<in> set existing. (\<forall>i \<in> set indexes. stringify (key i) \<noteq> stringify (key e))
        \<and> stringify (key e) \<noteq> stringify pk}"
  by (auto simp: removedIndexes_def differenceBy_filter ixSpecificationIdentity_def image_iff)

lemma newIndexes_eq:
  "newIndexes stringify indexes existing =
     filter (\<lambda>i. \<forall>e \<in> set existing. stringify (key e) \<noteq> stringify (key i)) indexes"
  unfolding newIndexes_def differenceBy_filter ixSpecificationIdentity_def
  by (rule filter_cong) (auto simp: image_iff)

lemma removedIndexes_eq:
  "removedIndexes stringify pk indexes existing =
     filter (\<lambda>e. (\<forall>i \<in> set indexes. stringify (key i) \<noteq> stringify (key e))
                 \<and> stringify (key e) \<noteq> stringify pk) existing"
  unfolding removedIndexes_def differenceBy_filter ixSpecificationIdentity_def filter_filter
  by (rule filter_cong) (auto simp: image_iff)

lemma dropAll_filter:
  "\<forall>r \<in> set rs. name r \<noteq> None \<Longrightarrow>
   dropAll rs l = Inr (filter (\<lambda>i. name i \<notin> name ` set rs) l)"
proof (induction rs arbitrary: l)
  case Nil
  show ?case by simp
next
  case (Cons r rs)
  from Cons.prems obtain m where m: "name r = Some m" by auto
  have "dropAll (r # rs) l = dropAll rs (filter (\<lambda>i. name i \<noteq> Some m) l)"
    by (simp add: dropIndex_def m)
  also have "\<dots> = Inr (filter (\<lambda>i. name i \<notin> name ` set rs) (filter (\<lambda>i. name i \<noteq> Some m) l))"
    using Cons by simp
  also have "\<dots> = Inr (filter (\<lambda>i. name i \<notin> name ` set (r # rs)) l)"
    by (auto simp: m intro: filter_cong)
  finally show ?case .
qed

lemma filter_names_minus:
  assumes "distinct (map name l)" and "set rs \<subseteq> set l"
  shows "set (filter (\<lambda>i. name i \<notin> name ` set rs) l) = set l - set rs"
proof -
  have inj: "inj_on name (set l)"
    using assms(1) by (simp add: distinct_map)
  show ?thesis
    using assms(2) inj by (auto simp: image_iff dest: inj_onD)
qed

lemma key_named [simp]: "key (named autoName s) = key s"
  by (simp add: named_def)

lemma filter_by_names:
  assumes "distinct (map name l)" and "set rs \<subseteq> set l"
  shows "filter (\<lambda>i. name i \<notin> name ` set rs) l = filter (\<lambda>i. i \<notin> set rs) l"
proof (rule filter_cong [OF refl])
  fix x assume x: "x \<in> set l"
  have inj: "inj_on name (set l)"
    using assms(1) by (simp add: distinct_map)
  show "(name x \<notin> name ` set rs) = (x \<notin> set rs)"
    using assms(2) inj x by (auto simp: image_iff dest: inj_onD)
qed

lemma ensureIndexes_run:
  assumes nm: "\<forall>e \<in> set live. name e \<noteq> None"
      and dist: "distinct (map name live)"
      and fresh:
        "distinct (map name (map (\<lambda>i. named autoName (i\<lparr>background := True\<rparr>))
           (filter (\<lambda>i. \<forall>e \<in> set live. stringify (key e) \<noteq> stringify (key i)) indexes)))"
        "set (map name (map (\<lambda>i. named autoName (i\<lparr>background := True\<rparr>))
           (filter (\<lambda>i. \<forall>e \<in> set live. stringify (key e) \<noteq> stringify (key i)) indexes)))
         \<inter> set (map name live) = {}"
  shows "ensureIndexes stringify pk autoName indexes live =
           Inr (filter (\<lambda>e. (\<exists>i \<in> set indexes. stringify (key i) = stringify (key e))
                             \<or> stringify (key e) = stringify pk) live
                @ map (\<lambda>i. named autoName (i\<lparr>background := True\<rparr>))
                    (filter (\<lambda>i. \<forall>e \<in> set live. stringify (key e) \<noteq> stringify (key i)) indexes))"
proof -
  let ?new = "newIndexes stringify indexes live"
  let ?removed = "removedIndexes stringify pk indexes live"
  define created where
    "created = map (\<lambda>i. named autoName (i\<lparr>background := True\<rparr>))
           (filter (\<lambda>i. \<forall>e \<in> set live. stringify (key e) \<noteq> stringify (key i)) indexes)"
  let ?keep = "\<lambda>e. (\<exists>i \<in> set indexes. stringify (key i) = stringify (key e))
                  \<or> stringify (key e) = stringify pk"
  have cr: "map (named autoName) (map (\<lambda>i. i\<lparr>background := True\<rparr>) ?new) = created"
    by (simp add: created_def newIndexes_eq comp_def)
  have f1: "distinct (map name created)" and f2: "set (map name created) \<inter> set (map name live) = {}"
    using fresh unfolding created_def by blast+
  have ok: "\<forall>c \<in> set created. name c \<notin> set (map name live)"
    using f2 by auto
  have c: "(if ?new \<noteq> [] then createIndexes autoName (map (\<lambda>i. i\<lparr>background := True\<rparr>) ?new) live
            else Inr live) = Inr (live @ created)"
  proof (cases "?new = []")
    case True
    then have "created = []" using cr by simp
    with True show ?thesis by simp
  next
    case False
    have "createIndexes autoName (map (\<lambda>i. i\<lparr>background := True\<rparr>) ?new) live = Inr (live @ created)"
      unfolding createIndexes_def Let_def cr using f1 ok by simp
    with False show ?thesis by simp
  qed
  have sub: "set ?removed \<subseteq> set live"
    by (auto simp: removedIndexes_eq)
  have rnm: "\<forall>r \<in> set ?removed. name r \<noteq> None"
    using sub nm by auto
  have kept: "filter (\<lambda>i. i \<notin> set ?removed) live = filter ?keep live"
    by (rule filter_cong [OF refl]) (auto simp: set_removedIndexes)
  have "filter (\<lambda>i. name i \<notin> name ` set ?removed) (live @ created)
          = filter (\<lambda>i. name i \<notin> name ` set ?removed) live
            @ filter (\<lambda>i. name i \<notin> name ` set ?removed) created"
    by simp
  also have "filter (\<lambda>i. name i \<notin> name ` set ?removed) live = filter ?keep live"
    using filter_by_names [OF dist sub] kept by simp
  also have "filter (\<lambda>i. name i \<notin> name ` set ?removed) created = created"
  proof (rule filter_True)
    show "\<forall>x\<in>set created. name x \<notin> name ` set ?removed"
      using ok sub by auto
  qed
  finally have drop: "filter (\<lambda>i. name i \<notin> name ` set ?removed) (live @ created)
                        = filter ?keep live @ created" .
  have d: "(if ?removed \<noteq> [] then dropAll ?removed (live @ created) else Inr (live @ created))
             = Inr (filter ?keep live @ created)"
  proof (cases "?removed = []")
    case True
    then have "filter ?keep live = live"
      using kept by simp
    with True show ?thesis by simp
  next
    case False
    then show ?thesis
      using dropAll_filter [OF rnm, of "live @ created"] drop by simp
  qed
  have "ensureIndexes stringify pk autoName indexes live = Inr (filter ?keep live @ created)"
    using c d by (simp add: ensureIndexes_def Let_def)
  then show ?thesis unfolding created_def .
qed

text \<open>
  Claim C8 (as amended). Let the live indexes of the collection be named, with
  distinct names, and let the names of the indexes that are to be created (a desired
  specification without a name gets one from its key pattern) be distinct and not be
  the name of a live index. Then \<open>ensureIndexes\<close> succeeds and leaves exactly: the
  live indexes whose key pattern (compared through \<open>stringify\<close>, never through the
  name) is the key pattern of a desired specification or the primary-key pattern \<open>pk\<close>,
  in their order; followed by the desired specifications whose key pattern is not that
  of a live index, created in the background. So it creates exactly the latter and
  drops exactly the live indexes that are not kept, and every primary-key index is
  kept. On the resulting index list a second run finds nothing to create and nothing
  to drop and returns the list as it is.
\<close>

theorem ensureIndexes_reconciles:
  assumes nm: "\<forall>e \<in> set live. name e \<noteq> None"
      and dist: "distinct (map name live)"
      and fresh:
        "distinct (map name (map (\<lambda>i. named autoName (i\<lparr>background := True\<rparr>))
           (filter (\<lambda>i. \<forall>e \<in> set live. stringify (key e) \<noteq> stringify (key i)) indexes)))"
        "set (map name (map (\<lambda>i. named autoName (i\<lparr>background := True\<rparr>))
           (filter (\<lambda>i. \<forall>e \<in> set live. stringify (key e) \<noteq> stringify (key i)) indexes)))
         \<inter> set (map name live) = {}"
  shows "\<exists>live'.
           ensureIndexes stringify pk autoName indexes live = Inr live'
         \<and> live' =
             filter (\<lambda>e. (\<exists>i \<in> set indexes. stringify (key i) = stringify (key e))
                          \<or> stringify (key e) = stringify pk) live
             @ map (\<lambda>i. named autoName (i\<lparr>background := True\<rparr>))
                 (filter (\<lambda>i. \<forall>e \<in> set live. stringify (key e) \<noteq> stringify (key i)) indexes)
         \<and> (\<forall>e \<in> set live. stringify (key e) = stringify pk \<longrightarrow> e \<in> set live')
         \<and> newIndexes stringify indexes live' = []
         \<and> removedIndexes stringify pk indexes live' = []
         \<and> ensureIndexes stringify pk autoName indexes live' = Inr live'"
proof -
  define live' where
    "live' = filter (\<lambda>e. (\<exists>i \<in> set indexes. stringify (key i) = stringify (key e))
                          \<or> stringify (key e) = stringify pk) live
             @ map (\<lambda>i. named autoName (i\<lparr>background := True\<rparr>))
                 (filter (\<lambda>i. \<forall>e \<in> set live. stringify (key e) \<noteq> stringify (key i)) indexes)"
  have run: "ensureIndexes stringify pk autoName indexes live = Inr live'"
    unfolding live'_def by (rule ensureIndexes_run [OF nm dist fresh])
  have shape: "set live' =
           {e \<in> set live. (\<exists>i \<in> set indexes. stringify (key i) = stringify (key e))
                            \<or> stringify (key e) = stringify pk}
           \<union> (\<lambda>i. named autoName (i\<lparr>background := True\<rparr>))
               ` {i \<in> set indexes. \<forall>e \<in> set live. stringify (key e) \<noteq> stringify (key i)}"
    by (auto simp: live'_def)
  have pk_kept: "\<forall>e \<in> set live. stringify (key e) = stringify pk \<longrightarrow> e \<in> set live'"
    unfolding shape by blast
  have covered: "\<exists>e \<in> set live'. stringify (key e) = stringify (key i)" if "i \<in> set indexes" for i
  proof (cases "\<forall>e \<in> set live. stringify (key e) \<noteq> stringify (key i)")
    case True
    with that have "named autoName (i\<lparr>background := True\<rparr>) \<in> set live'"
      unfolding shape by blast
    then show ?thesis by (rule bexI [rotated]) simp
  next
    case False
    then obtain e where e: "e \<in> set live" "stringify (key e) = stringify (key i)" by blast
    with that have "e \<in> set live'" unfolding shape by force
    with e show ?thesis by blast
  qed
  have wanted: "(\<exists>i \<in> set indexes. stringify (key i) = stringify (key e))
                 \<or> stringify (key e) = stringify pk" if "e \<in> set live'" for e
    using that unfolding shape by auto
  have new0: "newIndexes stringify indexes live' = []"
    unfolding newIndexes_eq filter_empty_conv using covered by blast
  have rem0: "removedIndexes stringify pk indexes live' = []"
    unfolding removedIndexes_eq filter_empty_conv using wanted by metis
  have again: "ensureIndexes stringify pk autoName indexes live' = Inr live'"
    by (simp add: ensureIndexes_def new0 rem0)
  show ?thesis
    using run pk_kept new0 rem0 again live'_def by blast
qed

theorem ensureIndexes_reconciles_witness:
  "None \<notin> name ` set [\<lparr>key = [(''_id'', 1::int)], name = Some ''_id_'', background = False\<rparr>,
                        \<lparr>key = [(''companyId'', 1)], name = Some ''companyId_1'', background = True\<rparr>]
   \<and> distinct (map name
        [\<lparr>key = [(''_id'', 1::int)], name = Some ''_id_'', background = False\<rparr>,
         \<lparr>key = [(''companyId'', 1)], name = Some ''companyId_1'', background = True\<rparr>])
   \<and> ensureIndexes (concat \<circ> map fst) [(''_id'', 1)] (concat \<circ> map fst)
        [\<lparr>key = [(''someField'', - 1)], name = None, background = False\<rparr>]
        [\<lparr>key = [(''_id'', 1::int)], name = Some ''_id_'', background = False\<rparr>,
         \<lparr>key = [(''companyId'', 1)], name = Some ''companyId_1'', background = True\<rparr>]
      = Inr [\<lparr>key = [(''_id'', 1)], name = Some ''_id_'', background = False\<rparr>,
             \<lparr>key = [(''someField'', - 1)], name = Some ''someField'', background = True\<rparr>]
   \<and> ensureIndexes (concat \<circ> map fst) [(''_id'', 1)] (concat \<circ> map fst)
        [\<lparr>key = [(''someField'', - 1)], name = None, background = False\<rparr>]
        [\<lparr>key = [(''_id'', 1)], name = Some ''_id_'', background = False\<rparr>,
         \<lparr>key = [(''someField'', - 1)], name = Some ''someField'', background = True\<rparr>]
      = Inr [\<lparr>key = [(''_id'', 1)], name = Some ''_id_'', background = False\<rparr>,
             \<lparr>key = [(''someField'', - 1)], name = Some ''someField'', background = True\<rparr>]"
  using ensureIndexes_reconciles [where
      live = "[\<lparr>key = [(''_id'', 1::int)], name = Some ''_id_'', background = False\<rparr>,
        \<lparr>key = [(''companyId'', 1)], name = Some ''companyId_1'', background = True\<rparr>]"
      and stringify = "concat \<circ> map fst" and pk = "[(''_id'', 1)]" and autoName = "concat \<circ> map fst"
      and indexes = "[\<lparr>key = [(''someField'', - 1)], name = None, background = False\<rparr>]"]
  by (simp add: ensureIndexes_def newIndexes_def removedIndexes_def ixSpecificationIdentity_def
        createIndexes_def named_def dropIndex_def)

text \<open>
  The claim as stated fails when a desired specification has the name of a live index
  with another key pattern: the creation comes before the drops, the database rejects
  the name, and nothing is created and nothing is dropped.
\<close>

theorem ensureIndexes_reconciles_counterexample:
  "ensureIndexes (concat \<circ> map fst) [(''_id'', 1)] (concat \<circ> map fst)
        [\<lparr>key = [(''someField'', - 1)], name = Some ''by_field'', background = False\<rparr>]
        [\<lparr>key = [(''_id'', 1::int)], name = Some ''_id_'', background = False\<rparr>,
         \<lparr>key = [(''companyId'', 1)], name = Some ''by_field'', background = True\<rparr>]
      = Inl (MongoError ''an index of this name already exists'')
   \<and> newIndexes (concat \<circ> map fst)
        [\<lparr>key = [(''someField'', - 1)], name = Some ''by_field'', background = False\<rparr>]
        [\<lparr>key = [(''_id'', 1::int)], name = Some ''_id_'', background = False\<rparr>,
         \<lparr>key = [(''companyId'', 1)], name = Some ''by_field'', background = True\<rparr>]
      = [\<lparr>key = [(''someField'', - 1)], name = Some ''by_field'', background = False\<rparr>]
   \<and> removedIndexes (concat \<circ> map fst) [(''_id'', 1)]
        [\<lparr>key = [(''someField'', - 1)], name = Some ''by_field'', background = False\<rparr>]
        [\<lparr>key = [(''_id'', 1::int)], name = Some ''_id_'', background = False\<rparr>,
         \<lparr>key = [(''companyId'', 1)], name = Some ''by_field'', background = True\<rparr>]
      = [\<lparr>key = [(''companyId'', 1)], name = Some ''by_field'', background = True\<rparr>]"
  by (simp add: ensureIndexes_def newIndexes_def removedIndexes_def ixSpecificationIdentity_def
        createIndexes_def named_def dropIndex_def)

section \<open>Properties of values laid out in memory\<close>

lemma alloc_prefix:
  "alloc v h = (hv, h') \<Longrightarrow> \<exists>ext. h' = h @ ext"
  "allocItems vs h = (hvs, h') \<Longrightarrow> \<exists>ext. h' = h @ ext"
  "allocProps kvs h = (hkvs, h') \<Longrightarrow> \<exists>ext. h' = h @ ext"
proof (induction v h and vs h and kvs h arbitrary: hv h' and hvs h' and hkvs h'
       rule: alloc_allocItems_allocProps.induct)
  case (7 vs h)
  then show ?case by (fastforce split: prod.splits)
next
  case (8 kvs h)
  then show ?case by (fastforce split: prod.splits)
next
  case (10 v vs h)
  obtain hv h1 where a: "alloc v h = (hv, h1)" by (cases "alloc v h")
  obtain hvs2 h2 where b: "allocItems vs h1 = (hvs2, h2)" by (cases "allocItems vs h1")
  from a b "10.prems" have "h' = h2" by simp
  moreover from "10.IH"(1) [OF a] obtain e1 where "h1 = h @ e1" ..
  moreover from "10.IH"(2) [OF a [symmetric] b] obtain e2 where "h2 = h1 @ e2" ..
  ultimately show ?case by simp
next
  case (12 k v kvs h)
  obtain hv h1 where a: "alloc v h = (hv, h1)" by (cases "alloc v h")
  obtain hkvs2 h2 where b: "allocProps kvs h1 = (hkvs2, h2)" by (cases "allocProps kvs h1")
  from a b "12.prems" have "h' = h2" by simp
  moreover from "12.IH"(1) [OF a] obtain e1 where "h1 = h @ e1" ..
  moreover from "12.IH"(2) [OF a [symmetric] b] obtain e2 where "h2 = h1 @ e2" ..
  ultimately show ?case by simp
qed auto


lemma holds_frame:
  "holds h lo hi hv v \<Longrightarrow> hi \<le> length g \<Longrightarrow> (\<forall>a. lo \<le> a \<longrightarrow> a < hi \<longrightarrow> g ! a = h ! a)
     \<Longrightarrow> holds g lo hi hv v"
  "holdsItems h lo hi hvs vs \<Longrightarrow> hi \<le> length g \<Longrightarrow> (\<forall>a. lo \<le> a \<longrightarrow> a < hi \<longrightarrow> g ! a = h ! a)
     \<Longrightarrow> holdsItems g lo hi hvs vs"
  "holdsProps h lo hi hkvs kvs \<Longrightarrow> hi \<le> length g \<Longrightarrow> (\<forall>a. lo \<le> a \<longrightarrow> a < hi \<longrightarrow> g ! a = h ! a)
     \<Longrightarrow> holdsProps g lo hi hkvs kvs"
proof (induction h lo hi hv v and h lo hi hvs vs and h lo hi hkvs kvs
       rule: holds_holdsItems_holdsProps.induct)
  case (7 h lo hi hv vs)
  from "7.prems"(1) obtain a hvs where
    a: "hv = HRef a" "lo \<le> a" "a < hi" "hi \<le> length h" "h ! a = CArr hvs" "holdsItems h lo a hvs vs"
    by auto
  have "holdsItems g lo a hvs vs"
    using "7.IH" [OF a(6)] a(3) "7.prems"(2,3) by simp
  with a "7.prems"(2,3) show ?case by auto
next
  case (8 h lo hi hv kvs)
  from "8.prems"(1) obtain a hkvs where
    a: "hv = HRef a" "lo \<le> a" "a < hi" "hi \<le> length h" "h ! a = CObj hkvs" "holdsProps h lo a hkvs kvs"
    by auto
  have "holdsProps g lo a hkvs kvs"
    using "8.IH" [OF a(6)] a(3) "8.prems"(2,3) by simp
  with a "8.prems"(2,3) show ?case by auto
next
  case (10 h lo hi hvs v vs)
  from "10.prems"(1) obtain hv hvs' mid where
    m: "hvs = hv # hvs'" "lo \<le> mid" "mid \<le> hi" "holds h lo mid hv v" "holdsItems h mid hi hvs' vs"
    by auto
  have "holds g lo mid hv v"
    using "10.IH"(1) [OF m(4)] m(3) "10.prems"(2,3) by simp
  moreover have "holdsItems g mid hi hvs' vs"
    using "10.IH"(2) [OF m(5)] m(2) "10.prems"(2,3) by simp
  ultimately show ?case using m by auto
next
  case (12 h lo hi hkvs k v kvs)
  from "12.prems"(1) obtain hv hkvs' mid where
    m: "hkvs = (k, hv) # hkvs'" "lo \<le> mid" "mid \<le> hi" "holds h lo mid hv v"
       "holdsProps h mid hi hkvs' kvs"
    by auto
  have "holds g lo mid hv v"
    using "12.IH"(1) [OF m(4)] m(3) "12.prems"(2,3) by simp
  moreover have "holdsProps g mid hi hkvs' kvs"
    using "12.IH"(2) [OF m(5)] m(2) "12.prems"(2,3) by simp
  ultimately show ?case using m by auto
qed auto


lemma holds_bounds:
  "holds h lo hi hv v \<Longrightarrow> lo \<le> hi"
  "holdsItems h lo hi hvs vs \<Longrightarrow> lo \<le> hi"
  "holdsProps h lo hi hkvs kvs \<Longrightarrow> lo \<le> hi"
  by (induction h lo hi hv v and h lo hi hvs vs and h lo hi hkvs kvs
      rule: holds_holdsItems_holdsProps.induct)
     (auto, (meson less_imp_le_nat le_trans)+)

lemma alloc_holds:
  "alloc v h = (hv, h') \<Longrightarrow> holds h' (length h) (length h') hv v"
  "allocItems vs h = (hvs, h') \<Longrightarrow> holdsItems h' (length h) (length h') hvs vs"
  "allocProps kvs h = (hkvs, h') \<Longrightarrow> holdsProps h' (length h) (length h') hkvs kvs"
proof (induction v h and vs h and kvs h arbitrary: hv h' and hvs h' and hkvs h'
       rule: alloc_allocItems_allocProps.induct)
  case (7 vs h)
  obtain hvs h1 where a: "allocItems vs h = (hvs, h1)" by (cases "allocItems vs h")
  with "7.prems" have r: "hv = HRef (length h1)" "h' = h1 @ [CArr hvs]" by auto
  have "holdsItems h1 (length h) (length h1) hvs vs" by (rule "7.IH" [OF a])
  then have "holdsItems h' (length h) (length h1) hvs vs"
    by (rule holds_frame) (auto simp: r nth_append)
  moreover have "length h \<le> length h1"
    using alloc_prefix(2) [OF a] by auto
  ultimately show ?case by (auto simp: r)
next
  case (8 kvs h)
  obtain hkvs h1 where a: "allocProps kvs h = (hkvs, h1)" by (cases "allocProps kvs h")
  with "8.prems" have r: "hv = HRef (length h1)" "h' = h1 @ [CObj hkvs]" by auto
  have "holdsProps h1 (length h) (length h1) hkvs kvs" by (rule "8.IH" [OF a])
  then have "holdsProps h' (length h) (length h1) hkvs kvs"
    by (rule holds_frame) (auto simp: r nth_append)
  moreover have "length h \<le> length h1"
    using alloc_prefix(3) [OF a] by auto
  ultimately show ?case by (auto simp: r)
next
  case (10 v vs h)
  obtain hv h1 where a: "alloc v h = (hv, h1)" by (cases "alloc v h")
  obtain hvs2 h2 where b: "allocItems vs h1 = (hvs2, h2)" by (cases "allocItems vs h1")
  from a b "10.prems" have r: "h' = h2" "hvs = hv # hvs2" by auto
  from alloc_prefix(1) [OF a] obtain e1 where e1: "h1 = h @ e1" ..
  from alloc_prefix(2) [OF b] obtain e2 where e2: "h2 = h1 @ e2" ..
  have "holds h1 (length h) (length h1) hv v" by (rule "10.IH"(1) [OF a])
  then have "holds h2 (length h) (length h1) hv v"
    by (rule holds_frame) (auto simp: e2 nth_append)
  moreover have "holdsItems h2 (length h1) (length h2) hvs2 vs"
    by (rule "10.IH"(2) [OF a [symmetric] b])
  ultimately show ?case by (auto simp: r e1 e2 intro!: exI [of _ "length h1"])
next
  case (12 k v kvs h)
  obtain hv h1 where a: "alloc v h = (hv, h1)" by (cases "alloc v h")
  obtain hkvs2 h2 where b: "allocProps kvs h1 = (hkvs2, h2)" by (cases "allocProps kvs h1")
  from a b "12.prems" have r: "h' = h2" "hkvs = (k, hv) # hkvs2" by auto
  from alloc_prefix(1) [OF a] obtain e1 where e1: "h1 = h @ e1" ..
  from alloc_prefix(3) [OF b] obtain e2 where e2: "h2 = h1 @ e2" ..
  have "holds h1 (length h) (length h1) hv v" by (rule "12.IH"(1) [OF a])
  then have "holds h2 (length h) (length h1) hv v"
    by (rule holds_frame) (auto simp: e2 nth_append)
  moreover have "holdsProps h2 (length h1) (length h2) hkvs2 kvs"
    by (rule "12.IH"(2) [OF a [symmetric] b])
  ultimately show ?case by (auto simp: r e1 e2 intro!: exI [of _ "length h1"])
qed auto


lemma holds_load:
  "holds h lo hi hv v \<Longrightarrow> hi - lo \<le> n \<Longrightarrow> load n h hv = Some v"
  "holdsItems h lo hi hvs vs \<Longrightarrow> hi - lo \<le> n \<Longrightarrow> those (map (load n h) hvs) = Some vs"
  "holdsProps h lo hi hkvs kvs \<Longrightarrow> hi - lo \<le> n \<Longrightarrow>
     those (map (\<lambda>(k, hv). map_option (Pair k) (load n h hv)) hkvs) = Some kvs"
proof (induction h lo hi hv v and h lo hi hvs vs and h lo hi hkvs kvs
       arbitrary: n and n and n
       rule: holds_holdsItems_holdsProps.induct)
  case (7 h lo hi hv vs)
  from "7.prems"(1) obtain a hvs where
    a: "hv = HRef a" "lo \<le> a" "a < hi" "hi \<le> length h" "h ! a = CArr hvs" "holdsItems h lo a hvs vs"
    by auto
  from a(2,3) "7.prems"(2) obtain m where m: "n = Suc m" "a - lo \<le> m"
    by (cases n) auto
  have "those (map (load m h) hvs) = Some vs"
    by (rule "7.IH" [OF a(6) m(2)])
  with a m show ?case by simp
next
  case (8 h lo hi hv kvs)
  from "8.prems"(1) obtain a hkvs where
    a: "hv = HRef a" "lo \<le> a" "a < hi" "hi \<le> length h" "h ! a = CObj hkvs" "holdsProps h lo a hkvs kvs"
    by auto
  from a(2,3) "8.prems"(2) obtain m where m: "n = Suc m" "a - lo \<le> m"
    by (cases n) auto
  have "those (map (\<lambda>(k, hv). map_option (Pair k) (load m h hv)) hkvs) = Some kvs"
    by (rule "8.IH" [OF a(6) m(2)])
  with a m show ?case by simp
next
  case (10 h lo hi hvs v vs)
  from "10.prems"(1) obtain hv hvs' mid where
    m: "hvs = hv # hvs'" "lo \<le> mid" "mid \<le> hi" "holds h lo mid hv v" "holdsItems h mid hi hvs' vs"
    by auto
  have "load n h hv = Some v"
    using "10.IH"(1) [OF m(4)] m(3) "10.prems"(2) by simp
  moreover have "those (map (load n h) hvs') = Some vs"
    using "10.IH"(2) [OF m(5)] m(2) "10.prems"(2) by simp
  ultimately show ?case by (simp add: m(1))
next
  case (12 h lo hi hkvs k v kvs)
  from "12.prems"(1) obtain hv hkvs' mid where
    m: "hkvs = (k, hv) # hkvs'" "lo \<le> mid" "mid \<le> hi" "holds h lo mid hv v"
       "holdsProps h mid hi hkvs' kvs"
    by auto
  have "load n h hv = Some v"
    using "12.IH"(1) [OF m(4)] m(3) "12.prems"(2) by simp
  moreover have "those (map (\<lambda>(k, hv). map_option (Pair k) (load n h hv)) hkvs') = Some kvs"
    using "12.IH"(2) [OF m(5)] m(2) "12.prems"(2) by simp
  ultimately show ?case by (simp add: m(1))
qed auto


lemma holdsProps_keys:
  "holdsProps h lo hi hkvs kvs \<Longrightarrow> map fst hkvs = map fst kvs"
  by (induction kvs arbitrary: hkvs lo) auto


lemma getProp_None_keys: "getProp kvs k = None \<longleftrightarrow> k \<notin> set (map fst kvs)"
  by (induction kvs) (auto split: if_splits)





section \<open>Properties of the Structural Differ\<close>

lemma getProp_Some_mem: "getProp kvs k = Some v \<Longrightarrow> (k, v) \<in> set kvs"
  by (induction kvs) (auto split: if_splits)

lemma getProp_None_iff: "getProp kvs k = None \<longleftrightarrow> k \<notin> fst ` set kvs"
  by (induction kvs) (auto split: if_splits)

lemma getProp_distinct: "distinct (map fst kvs) \<Longrightarrow> (k, v) \<in> set kvs \<Longrightarrow> getProp kvs k = Some v"
  by (induction kvs) (auto simp: rev_image_eqI)













lemma cloneDeep_id: "cloneDeep v = v"
proof (induction v rule: cloneDeep.induct)
  case (1 vs)
  then show ?case by (simp add: map_idI)
next
  case (2 kvs)
  have "map (\<lambda>(k, v). (k, cloneDeep v)) kvs = kvs"
    by (rule map_idI) (use 2 in \<open>auto split: prod.splits\<close>)
  then show ?case by simp
qed auto










section \<open>Properties of update through references\<close>

lemma alloc_obj:
  assumes "alloc (JObj kvs) h = (hv, h')"
  shows "\<exists>a. hv = HRef a \<and> Suc a = length h' \<and> length h \<le> a"
proof -
  obtain hkvs h1 where a: "allocProps kvs h = (hkvs, h1)" by (cases "allocProps kvs h")
  from alloc_prefix(3) [OF a] have "length h \<le> length h1" by auto
  with a assms show ?thesis by auto
qed

lemma findOneAndUpdate_found:
  assumes found: "findOne rt st fltr coll = Inr doc"
  shows "\<exists>oa ca m h2.
           findOneAndUpdate rt st rc fltr h coll =
             (Inr (HRef ca, \<lparr>env_rc = rc, env_filter = fltr, env_originalDocument = HRef oa\<rparr>), h2, coll)
         \<and> holds h2 (length h) m (HRef oa) (JObj doc)
         \<and> holds h2 m (length h2) (HRef ca) (JObj doc)
         \<and> length h \<le> oa \<and> Suc oa = m \<and> m \<le> ca \<and> Suc ca = length h2"
proof -
  obtain orig h1 where a1: "alloc (JObj doc) h = (orig, h1)" by (cases "alloc (JObj doc) h")
  from alloc_obj [OF a1] obtain oa where oa: "orig = HRef oa" "Suc oa = length h1" "length h \<le> oa"
    by blast
  obtain copy h2 where a2: "alloc (JObj doc) h1 = (copy, h2)" by (cases "alloc (JObj doc) h1")
  from alloc_obj [OF a2] obtain ca where ca: "copy = HRef ca" "Suc ca = length h2" "length h1 \<le> ca"
    by blast
  have ho1: "holds h1 (length h) (length h1) orig (JObj doc)" by (rule alloc_holds(1) [OF a1])
  have ld: "load (length h1) h1 orig = Some (JObj doc)"
    by (rule holds_load(1) [OF ho1]) simp
  have hc: "holds h2 (length h1) (length h2) copy (JObj doc)" by (rule alloc_holds(1) [OF a2])
  from alloc_prefix(1) [OF a2] obtain e where e: "h2 = h1 @ e" ..
  have ho: "holds h2 (length h) (length h1) orig (JObj doc)"
    by (rule holds_frame(1) [OF ho1]) (auto simp: e nth_append)
  have "findOneAndUpdate rt st rc fltr h coll =
          (Inr (copy, \<lparr>env_rc = rc, env_filter = fltr, env_originalDocument = orig\<rparr>), h2, coll)"
    by (simp only: findOneAndUpdate_def found a1 cloneDeepH_def ld a2 sum.case prod.case option.case)
  with ho hc oa ca show ?thesis by blast
qed

text \<open>
  Claim C10. When the parent document that \<open>findOne\<close> gives for the parent filter
  has no property at \<open>subdocumentPath\<close>, \<open>findOneSubdocumentAndUpdate\<close> fails with the
  \<open>TypeError\<close> of calling \<^verbatim>\<open>find\<close> on \<^verbatim>\<open>undefined\<close>, not with the store's error
  \<^verbatim>\<open>Resource doesn't exist on ...\<close>.
\<close>

theorem findOneSubdocumentAndUpdate_absent_field:
  assumes found: "findOne rt st filterParent coll = Inr doc"
      and absent: "getProp doc subdocumentPath = None"
  shows "fst (findOneSubdocumentAndUpdate rt st rc filterParent subdocumentPath subdocumentPredicate h coll)
           = Inl (TypeError ''Cannot read property find of undefined'')"
proof -
  from findOneAndUpdate_found [OF found, of rc h] obtain oa ca m h2 where
    r: "findOneAndUpdate rt st rc filterParent h coll =
          (Inr (HRef ca, \<lparr>env_rc = rc, env_filter = filterParent, env_originalDocument = HRef oa\<rparr>), h2, coll)"
    and hc: "holds h2 m (length h2) (HRef ca) (JObj doc)"
    and ca: "Suc ca = length h2"
    by blast
  from hc obtain hkvs where cell: "h2 ! ca = CObj hkvs" "holdsProps h2 m ca hkvs doc"
    by auto
  have "map fst hkvs = map fst doc" by (rule holdsProps_keys [OF cell(2)])
  with absent have "getProp hkvs subdocumentPath = None"
    by (simp add: getProp_None_keys)
  with cell(1) ca have "getPropH h2 (HRef ca) subdocumentPath = None" by auto
  then show ?thesis
    by (simp add: findOneSubdocumentAndUpdate_def r)
qed


theorem findOneSubdocumentAndUpdate_absent_field_witness:
  "findOne testRuntime testStorage [(''someField'', JStr ''yomama'')]
     [[(''_id'', JOid ''5ecfb65da04c74056eaa32d8''), (''someField'', JStr ''yomama'')]]
     = Inr [(''someField'', JStr ''yomama'')]
   \<and> getProp [(''someField'', JStr ''yomama'')] ''subResource'' = None
   \<and> findOneSubdocumentAndUpdate testRuntime testStorage testRc [(''someField'', JStr ''yomama'')]
        ''subResource'' (\<lambda>v. True) []
        [[(''_id'', JOid ''5ecfb65da04c74056eaa32d8''), (''someField'', JStr ''yomama'')]]
     = (Inl (TypeError ''Cannot read property find of undefined''),
        [CObj [(''someField'', HStr ''yomama'')], CObj [(''someField'', HStr ''yomama'')]],
        [[(''_id'', JOid ''5ecfb65da04c74056eaa32d8''), (''someField'', JStr ''yomama'')]])"
  using findOneSubdocumentAndUpdate_absent_field [of testRuntime testStorage
      "[(''someField'', JStr ''yomama'')]"
      "[[(''_id'', JOid ''5ecfb65da04c74056eaa32d8''), (''someField'', JStr ''yomama'')]]"
      "[(''someField'', JStr ''yomama'')]" "''subResource''" testRc "\<lambda>v. True" "[]"]
  by (simp add: findOne_def db_findOne_def testStorage_def mapDocumentFromDb_def deleteProp_def
        findOneSubdocumentAndUpdate_def findOneAndUpdate_def cloneDeepH_def)



















section \<open>Properties of reading a changelog back\<close>

lemma abstract_getProp:
  "map_of (map (\<lambda>(k, v). (k, abstract v)) kvs) k = map_option abstract (getProp kvs k)"
  by (induction kvs) auto

lemma abstract_setProp:
  "map_of (map (\<lambda>(k, v). (k, abstract v)) (setProp kvs k v))
     = (map_of (map (\<lambda>(k, v). (k, abstract v)) kvs))(k \<mapsto> abstract v)"
  by (induction kvs) (auto simp: fun_eq_iff)

lemma abstract_deleteProp:
  "map_of (map (\<lambda>(k, v). (k, abstract v)) (deleteProp kvs k))
     = (map_of (map (\<lambda>(k, v). (k, abstract v)) kvs))(k := None)"
  by (induction kvs) (auto simp: fun_eq_iff deleteProp_def)

lemma abstract_updateAt:
  "(\<And>x. abstract (f x) = g (abstract x)) \<Longrightarrow> abstract (updateAt p f t) = updateV p g (abstract t)"
proof (induction p f t rule: updateAt.induct)
  case (2 k path f kvs)
  then show ?case
    by (auto simp: abstract_getProp abstract_setProp split: option.splits)
next
  case (3 i path f vs)
  then show ?case by (auto simp: map_update)
qed auto

lemma abstract_applyChange: "abstract (applyChange e t) = applyV e (abstract t)"
proof (induction e t rule: applyChange.induct)
  case (1 path rhs t)
  have "\<And>k x. abstract (insertKey k rhs x) = insertKeyV k (abstract rhs) (abstract x)"
    by (auto simp: insertKey_def insertKeyV_def abstract_setProp split: json.splits)
  then show ?case by (auto simp: abstract_updateAt split: list.splits pathKey.splits)
next
  case (2 path lhs t)
  have "\<And>k x. abstract (removeKey k x) = removeKeyV k (abstract x)"
    by (auto simp: removeKey_def removeKeyV_def abstract_deleteProp split: json.splits)
  then show ?case by (auto simp: abstract_updateAt split: list.splits pathKey.splits)
next
  case (3 path lhs rhs t)
  then show ?case by (simp add: abstract_updateAt)
next
  case (4 path i p rhs t)
  have "\<And>x. abstract (insertItem i rhs x) = insertItemV i (abstract rhs) (abstract x)"
    by (auto simp: insertItem_def insertItemV_def map_update split: json.splits)
  then show ?case by (simp add: abstract_updateAt)
next
  case (5 path i p lhs t)
  have "\<And>x. abstract (removeItem i x) = removeItemV i (abstract x)"
    by (auto simp: removeItem_def removeItemV_def take_map drop_map split: json.splits)
  then show ?case by (simp add: abstract_updateAt)
qed auto

lemma abstract_applyChanges:
  "abstract (applyChanges es t) = foldl (\<lambda>t e. applyV e t) (abstract t) es"
  unfolding applyChanges_def
  by (induction es arbitrary: t) (auto simp: abstract_applyChange)

lemma applyChangesV_Nil [simp]: "applyChangesV [] t = t"
  by (simp add: applyChangesV_def)

lemma applyChangesV_Cons [simp]: "applyChangesV (e # es) t = applyChangesV es (applyV e t)"
  by (simp add: applyChangesV_def)

lemma applyChangesV_append [simp]:
  "applyChangesV (es @ es') t = applyChangesV es' (applyChangesV es t)"
  by (simp add: applyChangesV_def)

lemma updateV_append: "updateV (p @ q) f t = updateV p (updateV q f) t"
  by (induction p f t rule: updateV.induct) (auto split: option.splits)

lemma updateV_updateV: "updateV p f (updateV p g t) = updateV p (\<lambda>v. f (g v)) t"
  by (induction p g t rule: updateV.induct) (auto split: option.splits)

lemma atV_append: "atV (p @ q) t = (case atV p t of Some v \<Rightarrow> atV q v | None \<Rightarrow> None)"
  by (induction p t rule: atV.induct) (auto split: option.splits)

lemma atV_updateV: "atV p (updateV p f t) = map_option f (atV p t)"
  by (induction p f t rule: updateV.induct) (auto split: option.splits)

lemma updateV_at: "atV p t = Some v \<Longrightarrow> updateV p f t = updateV p (\<lambda>x. f v) t"
  by (induction p f t rule: updateV.induct) (auto split: option.splits if_splits)

lemma updateV_same: "atV p t = Some v \<Longrightarrow> updateV p (\<lambda>x. v) t = t"
  by (induction p t arbitrary: v rule: atV.induct) (auto split: option.splits if_splits)

lemma updateV_absorb: "updateV p (\<lambda>x. c) (updateV (p @ q) f t) = updateV p (\<lambda>x. c) t"
  by (simp add: updateV_append updateV_updateV)

lemma applyChangesV_local:
  "(\<And>x t. x \<in> set xs \<Longrightarrow> applyV (E x) t = updateV p (F x) t) \<Longrightarrow>
   applyChangesV (map E xs) t = updateV p (\<lambda>v. foldl (\<lambda>v x. F x v) v xs) t"
proof (induction xs arbitrary: t)
  case Nil
  show ?case by (induction p t rule: atV.induct) (auto split: option.splits)
next
  case (Cons x xs)
  have "applyChangesV (map E (x # xs)) t = applyChangesV (map E xs) (updateV p (F x) t)"
    using Cons.prems by simp
  also have "\<dots> = updateV p (\<lambda>v. foldl (\<lambda>v x. F x v) v xs) (updateV p (F x) t)"
    using Cons.prems by (intro Cons.IH) simp
  finally show ?case by (simp add: updateV_updateV)
qed

lemma getProp_map_of: "getProp kvs k = map_of kvs k"
  by (induction kvs) auto

lemma foldl_insert_keys:
  "distinct (map fst news) \<Longrightarrow>
   foldl (\<lambda>v (k, x). insertKeyV k (g x) v) (AObj m) news
     = AObj (\<lambda>k. case map_of news k of Some x \<Rightarrow> Some (g x) | None \<Rightarrow> m k)"
proof (induction news arbitrary: m)
  case Nil
  then show ?case by simp
next
  case (Cons kv news)
  obtain k x where kv: "kv = (k, x)" by (cases kv)
  have "k \<notin> fst ` set news" using Cons.prems by (simp add: kv)
  then have none: "map_of news k = None" by (simp add: map_of_eq_None_iff)
  have "foldl (\<lambda>v (k, x). insertKeyV k (g x) v) (AObj m) (kv # news)
          = foldl (\<lambda>v (k, x). insertKeyV k (g x) v) (AObj (m(k \<mapsto> g x))) news"
    by (simp add: kv insertKeyV_def)
  also have "\<dots> = AObj (\<lambda>k'. case map_of news k' of Some x \<Rightarrow> Some (g x) | None \<Rightarrow> (m(k \<mapsto> g x)) k')"
    using Cons.prems by (intro Cons.IH) simp
  also have "(\<lambda>k'. case map_of news k' of Some x \<Rightarrow> Some (g x) | None \<Rightarrow> (m(k \<mapsto> g x)) k')
          = (\<lambda>k'. case map_of (kv # news) k' of Some x \<Rightarrow> Some (g x) | None \<Rightarrow> m k')"
    using none by (auto simp: fun_eq_iff kv split: option.splits)
  finally show ?case .
qed

lemma foldl_insert_items:
  "n \<le> m \<Longrightarrow> m \<le> length ys \<Longrightarrow>
   foldl (\<lambda>v i. insertItemV i (g i) v) (AArr ys) (rev [n..<m])
     = AArr (take n ys @ map g [n..<m] @ drop m ys)"
proof (induction m arbitrary: ys)
  case 0
  then show ?case by simp
next
  case (Suc m)
  show ?case
  proof (cases "n = Suc m")
    case True
    then show ?thesis by simp
  next
    case False
    with Suc.prems have nm: "n \<le> m" "m < length ys" by auto
    have "foldl (\<lambda>v i. insertItemV i (g i) v) (AArr ys) (rev [n..<Suc m])
            = foldl (\<lambda>v i. insertItemV i (g i) v) (AArr (ys[m := g m])) (rev [n..<m])"
      using nm by (simp add: insertItemV_def)
    also have "\<dots> = AArr (take n (ys[m := g m]) @ map g [n..<m] @ drop m (ys[m := g m]))"
      using nm by (intro Suc.IH) auto
    also have "take n (ys[m := g m]) = take n ys" using nm by simp
    also have "drop m (ys[m := g m]) = g m # drop (Suc m) ys"
      using nm by (simp add: drop_update_cancel Cons_nth_drop_Suc [symmetric] upd_conv_take_nth_drop)
    finally show ?thesis using nm by simp
  qed
qed

lemma foldl_remove_items:
  "n \<le> m \<Longrightarrow> m = length ys \<Longrightarrow>
   foldl (\<lambda>v j. removeItemV j v) (AArr ys) (rev [n..<m]) = AArr (take n ys)"
proof (induction m arbitrary: ys)
  case 0
  then show ?case by simp
next
  case (Suc m)
  show ?case
  proof (cases "n = Suc m")
    case True
    then show ?thesis using Suc.prems by simp
  next
    case False
    with Suc.prems have nm: "n \<le> m" "length ys = Suc m" by auto
    have "foldl (\<lambda>v j. removeItemV j v) (AArr ys) (rev [n..<Suc m])
            = foldl (\<lambda>v j. removeItemV j v) (AArr (take m ys)) (rev [n..<m])"
      using nm by (simp add: removeItemV_def)
    also have "\<dots> = AArr (take n (take m ys))"
      using nm by (intro Suc.IH) auto
    finally show ?thesis using nm by (simp add: min_def)
  qed
qed

lemma applyV_New: "applyV (New (p @ [Key k]) v) t = updateV p (insertKeyV k (abstract v)) t"
  by simp

lemma applyV_Deleted: "applyV (Deleted (p @ [Key k]) v) t = updateV p (removeKeyV k) t"
  by simp

lemma map_of_filter_keys:
  "map_of (filter (\<lambda>(k, v). Q k) kvs) k = (if Q k then map_of kvs k else None)"
  by (induction kvs) auto

lemma newProps_apply:
  assumes "distinct (map fst rkvs)" "atV p t = Some (AObj m)"
  shows "applyChangesV (newProps p lkvs rkvs) t
           = updateV p (\<lambda>x. AObj (\<lambda>k. if getProp lkvs k = None \<and> getProp rkvs k \<noteq> None
                                        then map_option abstract (getProp rkvs k) else m k)) t"
proof -
  let ?news = "filter (\<lambda>(k, v). getProp lkvs k = None) rkvs"
  have d: "distinct (map fst ?news)" using assms(1) by (simp add: distinct_map_filter)
  have "applyChangesV (newProps p lkvs rkvs) t
          = applyChangesV (map (\<lambda>(k, v). New (p @ [Key k]) v) ?news) t"
    by (simp add: newProps_def)
  also have "\<dots> = updateV p (\<lambda>x. foldl (\<lambda>x (k, v). insertKeyV k (abstract v) x) x ?news) t"
    using applyChangesV_local [of ?news "\<lambda>(k, v). New (p @ [Key k]) v" p
        "\<lambda>(k, v). insertKeyV k (abstract v)" t]
    by (simp add: split_def)
  also have "\<dots> = updateV p (\<lambda>x. foldl (\<lambda>x (k, v). insertKeyV k (abstract v) x) (AObj m) ?news) t"
    using assms(2) by (rule updateV_at)
  also have "foldl (\<lambda>x (k, v). insertKeyV k (abstract v) x) (AObj m) ?news
          = AObj (\<lambda>k. case map_of ?news k of Some x \<Rightarrow> Some (abstract x) | None \<Rightarrow> m k)"
    using d by (rule foldl_insert_keys)
  also have "(\<lambda>k. case map_of ?news k of Some x \<Rightarrow> Some (abstract x) | None \<Rightarrow> m k)
          = (\<lambda>k. if getProp lkvs k = None \<and> getProp rkvs k \<noteq> None
                   then map_option abstract (getProp rkvs k) else m k)"
    by (auto simp: fun_eq_iff map_of_filter_keys getProp_map_of split: option.splits)
  finally show ?thesis .
qed

lemma map_nth_upt: "m \<le> length rs \<Longrightarrow> map (\<lambda>i. g (rs ! i)) [n..<m] = map g (drop n (take m rs))"
  by (auto intro!: nth_equalityI)

lemma arrayTail_apply:
  assumes "atV p t = Some (AArr (map abstract ls))"
  shows "applyChangesV (arrayTail p ls rs) t
           = updateV p (\<lambda>x. AArr (map abstract (take (length rs) ls) @ map abstract (drop (length ls) rs))) t"
proof (cases "length ls \<le> length rs")
  case True
  then have e: "[length rs..<length ls] = []" by simp
  have "applyChangesV (arrayTail p ls rs) t
          = applyChangesV (map (\<lambda>i. ArrayChange p i (New [] (rs ! i))) (rev [length ls..<length rs])) t"
    by (simp add: arrayTail_def e)
  also have "\<dots> = updateV p (\<lambda>x. foldl (\<lambda>x i. insertItemV i (abstract (rs ! i)) x) x (rev [length ls..<length rs])) t"
    by (rule applyChangesV_local) simp
  also have "\<dots> = updateV p (\<lambda>x. foldl (\<lambda>x i. insertItemV i (abstract (rs ! i)) x) (AArr (map abstract ls)) (rev [length ls..<length rs])) t"
    using assms by (rule updateV_at)
  also have "foldl (\<lambda>x i. insertItemV i (abstract (rs ! i)) x) (AArr (map abstract ls)) (rev [length ls..<length rs])
          = AArr (map abstract ls @ map abstract (drop (length ls) rs))"
  proof (cases "length ls = length rs")
    case True
    then show ?thesis by simp
  next
    case False
    with \<open>length ls \<le> length rs\<close> have lt: "length ls < length rs" by simp
    let ?ys = "map abstract ls @ replicate (length rs - length ls) ANull"
    have len: "length ?ys = length rs" using lt by simp
    have "rev [length ls..<length rs] = (length rs - 1) # rev [length ls..<length rs - 1]"
      using lt by (cases "length rs") auto
    moreover have "insertItemV (length rs - 1) v (AArr (map abstract ls))
             = insertItemV (length rs - 1) v (AArr ?ys)" for v
    proof -
      have a: "Suc (length rs - 1) - length (map abstract ls) = length rs - length ls"
        using lt by simp
      have b: "Suc (length rs - 1) - length ?ys = 0"
        using lt by simp
      show ?thesis
        by (simp only: insertItemV_def aval.simps a b replicate.simps append_Nil2)
    qed
    ultimately have "foldl (\<lambda>x i. insertItemV i (abstract (rs ! i)) x) (AArr (map abstract ls)) (rev [length ls..<length rs])
          = foldl (\<lambda>x i. insertItemV i (abstract (rs ! i)) x) (AArr ?ys) (rev [length ls..<length rs])"
      by simp
    also have "\<dots> = AArr (take (length ls) ?ys @ map (\<lambda>i. abstract (rs ! i)) [length ls..<length rs] @ drop (length rs) ?ys)"
      using lt len by (intro foldl_insert_items) auto
    finally show ?thesis using lt by (simp add: map_nth_upt)
  qed
  finally show ?thesis using True by simp
next
  case False
  then have lt: "length rs < length ls" by simp
  then have e: "[length ls..<length rs] = []" by simp
  have "applyChangesV (arrayTail p ls rs) t
          = applyChangesV (map (\<lambda>j. ArrayChange p j (Deleted [] (ls ! j))) (rev [length rs..<length ls])) t"
    by (simp add: arrayTail_def e)
  also have "\<dots> = updateV p (\<lambda>x. foldl (\<lambda>x j. removeItemV j x) x (rev [length rs..<length ls])) t"
    by (rule applyChangesV_local) simp
  also have "\<dots> = updateV p (\<lambda>x. foldl (\<lambda>x j. removeItemV j x) (AArr (map abstract ls)) (rev [length rs..<length ls])) t"
    using assms by (rule updateV_at)
  also have "foldl (\<lambda>x j. removeItemV j x) (AArr (map abstract ls)) (rev [length rs..<length ls])
          = AArr (take (length rs) (map abstract ls))"
    using lt by (intro foldl_remove_items) auto
  finally show ?thesis using lt by (simp add: take_map)
qed

lemma atV_child_key:
  "atV p t = Some (AObj m) \<Longrightarrow> m k = Some v \<Longrightarrow> atV (p @ [Key k]) t = Some v"
  by (simp add: atV_append)

lemma atV_child_index:
  "atV p t = Some (AArr xs) \<Longrightarrow> i < length xs \<Longrightarrow> atV (p @ [Index i]) t = Some (xs ! i)"
  by (simp add: atV_append)

lemma updateV_child_key:
  "m k = Some v \<Longrightarrow>
   updateV (p @ [Key k]) f (updateV p (\<lambda>x. AObj m) t) = updateV p (\<lambda>x. AObj (m(k \<mapsto> f v))) t"
  by (simp add: updateV_append updateV_updateV)

lemma updateV_child_index:
  "i < length xs \<Longrightarrow>
   updateV (p @ [Index i]) f (updateV p (\<lambda>x. AArr xs) t) = updateV p (\<lambda>x. AArr (xs[i := f (xs ! i)])) t"
  by (simp add: updateV_append updateV_updateV)

lemma deepDiff_apply:
  "wfJson l \<Longrightarrow> wfJson r \<Longrightarrow> atV path t = Some (abstract l) \<Longrightarrow>
     applyChangesV (deepDiff path l r) t = updateV path (\<lambda>x. abstract r) t"
  "list_all wfJson ls \<Longrightarrow> list_all wfJson rs \<Longrightarrow> atV path t = Some (AArr xs) \<Longrightarrow>
     i + min (length ls) (length rs) \<le> length xs \<Longrightarrow>
     (\<forall>j < min (length ls) (length rs). xs ! (i + j) = abstract (ls ! j)) \<Longrightarrow>
     applyChangesV (diffItems path i ls rs) t
       = updateV path (\<lambda>x. AArr (take i xs @ map abstract (take (min (length ls) (length rs)) rs)
                                  @ drop (i + min (length ls) (length rs)) xs)) t"
  "distinct (map fst lkvs) \<Longrightarrow> list_all (\<lambda>(k, v). wfJson v) lkvs \<Longrightarrow>
     list_all (\<lambda>(k, v). wfJson v) rkvs \<Longrightarrow> atV path t = Some (AObj m) \<Longrightarrow>
     (\<forall>(k, v) \<in> set lkvs. m k = Some (abstract v)) \<Longrightarrow>
     applyChangesV (diffProps path lkvs rkvs) t
       = updateV path (\<lambda>x. AObj (\<lambda>k. if k \<in> fst ` set lkvs
                                       then map_option abstract (getProp rkvs k) else m k)) t"
proof (induction path l r and path i ls rs and path lkvs rkvs
       arbitrary: t and t xs and t m
       rule: deepDiff_diffItems_diffProps.induct)
  case (1 path ls rhs)
  show ?case
  proof (cases rhs)
    case (JArr rs)
    let ?n = "min (length ls) (length rs)"
    let ?xs = "map abstract (take (length rs) ls) @ map abstract (drop (length ls) rs)"
    let ?t1 = "updateV path (\<lambda>x. AArr ?xs) t"
    have at0: "atV path t = Some (AArr (map abstract ls))" using "1.prems" by simp
    have t1: "applyChangesV (arrayTail path ls rs) t = ?t1"
      using at0 by (rule arrayTail_apply)
    have at1: "atV path ?t1 = Some (AArr ?xs)"
      using at0 by (simp add: atV_updateV)
    have wl: "list_all wfJson ls" "list_all wfJson rs" using "1.prems" JArr by simp_all
    have len: "0 + ?n \<le> length ?xs" by (simp add: min_def)
    have pre: "\<forall>j < ?n. ?xs ! (0 + j) = abstract (ls ! j)"
      by (auto simp: nth_append)
    have "applyChangesV (diffItems path 0 ls rs) ?t1
            = updateV path (\<lambda>x. AArr (take 0 ?xs @ map abstract (take ?n rs) @ drop (0 + ?n) ?xs)) ?t1"
      using JArr wl at1 len pre by (rule "1.IH")
    also have "\<dots> = updateV path (\<lambda>x. AArr (take 0 ?xs @ map abstract (take ?n rs) @ drop (0 + ?n) ?xs)) t"
      by (simp only: updateV_updateV)
    also have "take 0 ?xs @ map abstract (take ?n rs) @ drop (0 + ?n) ?xs = map abstract rs"
    proof (cases "length ls \<le> length rs")
      case True
      then have "map abstract (take (length ls) rs) @ map abstract (drop (length ls) rs) = map abstract rs"
        by (simp add: map_append [symmetric] del: map_append)
      with True show ?thesis by (simp add: min_def)
    next
      case False
      then show ?thesis by (simp add: min_def)
    qed
    finally show ?thesis using JArr t1 by simp
  qed (simp_all)
next
  case (2 path lkvs rhs)
  show ?case
  proof (cases rhs)
    case (JObj rkvs)
    let ?ml = "map_of (map (\<lambda>(k, v). (k, abstract v)) lkvs)"
    let ?m1 = "\<lambda>k. if k \<in> fst ` set lkvs then map_option abstract (getProp rkvs k) else ?ml k"
    let ?t1 = "updateV path (\<lambda>x. AObj ?m1) t"
    have at0: "atV path t = Some (AObj ?ml)" using "2.prems" by simp
    have d: "distinct (map fst lkvs)" "list_all (\<lambda>(k, v). wfJson v) lkvs"
            "list_all (\<lambda>(k, v). wfJson v) rkvs" "distinct (map fst rkvs)"
      using "2.prems" JObj by simp_all
    have pre: "\<forall>(k, v) \<in> set lkvs. ?ml k = Some (abstract v)"
      using d(1) by (auto simp: abstract_getProp getProp_distinct)
    have t1: "applyChangesV (diffProps path lkvs rkvs) t = ?t1"
      using JObj d(1,2,3) at0 pre by (rule "2.IH")
    have at1: "atV path ?t1 = Some (AObj ?m1)"
      using at0 by (simp add: atV_updateV)
    have "applyChangesV (newProps path lkvs rkvs) ?t1
            = updateV path (\<lambda>x. AObj (\<lambda>k. if getProp lkvs k = None \<and> getProp rkvs k \<noteq> None
                                        then map_option abstract (getProp rkvs k) else ?m1 k)) ?t1"
      using d(4) at1 by (rule newProps_apply)
    also have "\<dots> = updateV path (\<lambda>x. AObj (\<lambda>k. if getProp lkvs k = None \<and> getProp rkvs k \<noteq> None
                                        then map_option abstract (getProp rkvs k) else ?m1 k)) t"
      by (simp only: updateV_updateV)
    also have "(\<lambda>k. if getProp lkvs k = None \<and> getProp rkvs k \<noteq> None
                     then map_option abstract (getProp rkvs k) else ?m1 k)
             = map_of (map (\<lambda>(k, v). (k, abstract v)) rkvs)"
    proof (rule ext)
      fix k
      have a: "k \<in> fst ` set lkvs \<longleftrightarrow> getProp lkvs k \<noteq> None"
        by (simp add: getProp_None_iff)
      show "(if getProp lkvs k = None \<and> getProp rkvs k \<noteq> None
             then map_option abstract (getProp rkvs k) else ?m1 k)
            = map_of (map (\<lambda>(k, v). (k, abstract v)) rkvs) k"
        unfolding a by (cases "getProp lkvs k") (auto simp: abstract_getProp)
    qed
    finally show ?thesis using JObj t1 by simp
  qed (simp_all)
next
  case (3 path rhs)
  then show ?case by (auto simp: updateV_same)
next
  case (4 path b rhs)
  then show ?case by (auto simp: updateV_same)
next
  case (5 path n rhs)
  then show ?case by (auto simp: updateV_same)
next
  case (6 path s rhs)
  then show ?case by (auto simp: updateV_same)
next
  case (7 path d rhs)
  then show ?case by (auto simp: updateV_same)
next
  case (8 path h rhs)
  then show ?case by (auto simp: updateV_same)
next
  case (9 path i rs)
  then show ?case by (simp add: updateV_same)
next
  case (10 path i l ls)
  then show ?case by (simp add: updateV_same)
next
  case (11 path i l ls r rs)
  let ?n = "min (length ls) (length rs)"
  let ?ys = "take (Suc i) xs @ map abstract (take ?n rs) @ drop (Suc i + ?n) xs"
  let ?t1 = "updateV path (\<lambda>x. AArr ?ys) t"
  have w: "list_all wfJson ls" "list_all wfJson rs" "wfJson l" "wfJson r"
    using "11.prems" by simp_all
  have at0: "atV path t = Some (AArr xs)" using "11.prems" by simp
  have len: "Suc i + ?n \<le> length xs" using "11.prems"(4) by simp
  have pre: "\<forall>j < ?n. xs ! (Suc i + j) = abstract (ls ! j)"
  proof (intro allI impI)
    fix j assume "j < ?n"
    then have "Suc j < min (length (l # ls)) (length (r # rs))" by simp
    with "11.prems"(5) have "xs ! (i + Suc j) = abstract ((l # ls) ! Suc j)" by blast
    then show "xs ! (Suc i + j) = abstract (ls ! j)" by simp
  qed
  have xi: "xs ! i = abstract l" using "11.prems"(5) by force
  have t1: "applyChangesV (diffItems path (Suc i) ls rs) t = ?t1"
    using w(1,2) at0 len pre by (rule "11.IH"(1))
  have ilen: "i < length ?ys" using len by simp
  have yi: "?ys ! i = abstract l" using len xi by (simp add: nth_append)
  have at1: "atV path ?t1 = Some (AArr ?ys)"
    using at0 by (simp add: atV_updateV)
  have at2: "atV (path @ [Index i]) ?t1 = Some (abstract l)"
    using atV_child_index [OF at1 ilen] yi by simp
  have "applyChangesV (deepDiff (path @ [Index i]) l r) ?t1
          = updateV (path @ [Index i]) (\<lambda>x. abstract r) ?t1"
    using w(3,4) at2 by (rule "11.IH"(2))
  also have "\<dots> = updateV path (\<lambda>x. AArr (?ys[i := abstract r])) t"
    using ilen by (rule updateV_child_index)
  also have "?ys[i := abstract r]
      = take i xs @ map abstract (take (min (length (l # ls)) (length (r # rs))) (r # rs))
        @ drop (i + min (length (l # ls)) (length (r # rs))) xs"
    using len by (simp add: take_Suc_conv_app_nth list_update_append)
  finally show ?case using t1 by simp
next
  case (12 path rkvs)
  then show ?case by (simp add: updateV_same)
next
  case (13 path k l lkvs rkvs)
  have w: "distinct (map fst lkvs)" "list_all (\<lambda>(k, v). wfJson v) lkvs"
          "list_all (\<lambda>(k, v). wfJson v) rkvs" "wfJson l" "k \<notin> fst ` set lkvs"
    using "13.prems" by simp_all
  have at0: "atV path t = Some (AObj m)" using "13.prems" by simp
  have mk: "m k = Some (abstract l)" using "13.prems"(5) by simp
  have rest: "\<forall>(k', v) \<in> set lkvs. m k' = Some (abstract v)" using "13.prems"(5) by simp
  let ?v = "map_option abstract (getProp rkvs k)"
  let ?m1 = "m(k := ?v)"
  let ?t1 = "updateV path (\<lambda>x. AObj ?m1) t"
  have first: "applyChangesV (case getProp rkvs k of
                   Some r \<Rightarrow> deepDiff (path @ [Key k]) l r
                 | None \<Rightarrow> [Deleted (path @ [Key k]) l]) t = ?t1"
  proof (cases "getProp rkvs k")
    case None
    have "updateV path (removeKeyV k) t = updateV path (\<lambda>x. removeKeyV k (AObj m)) t"
      using at0 by (rule updateV_at)
    then show ?thesis using None by (simp add: removeKeyV_def)
  next
    case (Some r)
    then have "(k, r) \<in> set rkvs" by (rule getProp_Some_mem)
    with w(3) have wr: "wfJson r" by (auto simp: list_all_iff)
    have at2: "atV (path @ [Key k]) t = Some (abstract l)"
      using at0 mk by (rule atV_child_key)
    have "applyChangesV (deepDiff (path @ [Key k]) l r) t
            = updateV (path @ [Key k]) (\<lambda>x. abstract r) t"
      using Some w(4) wr at2 by (rule "13.IH"(1))
    also have "\<dots> = updateV (path @ [Key k]) (\<lambda>x. abstract r) (updateV path (\<lambda>x. AObj m) t)"
      using at0 by (simp add: updateV_same)
    also have "\<dots> = updateV path (\<lambda>x. AObj (m(k \<mapsto> abstract r))) t"
      using mk by (rule updateV_child_key)
    finally show ?thesis using Some by simp
  qed
  have at1: "atV path ?t1 = Some (AObj ?m1)"
    using at0 by (simp add: atV_updateV)
  have rest1: "\<forall>(k', v) \<in> set lkvs. ?m1 k' = Some (abstract v)"
    using rest w(5) by (auto simp: rev_image_eqI)
  have "applyChangesV (diffProps path lkvs rkvs) ?t1
          = updateV path (\<lambda>x. AObj (\<lambda>k'. if k' \<in> fst ` set lkvs
                                        then map_option abstract (getProp rkvs k') else ?m1 k')) ?t1"
    using w(1,2,3) at1 rest1 by (rule "13.IH"(2))
  also have "\<dots> = updateV path (\<lambda>x. AObj (\<lambda>k'. if k' \<in> fst ` set lkvs
                                        then map_option abstract (getProp rkvs k') else ?m1 k')) t"
    by (simp only: updateV_updateV)
  also have "(\<lambda>k'. if k' \<in> fst ` set lkvs then map_option abstract (getProp rkvs k') else ?m1 k')
           = (\<lambda>k'. if k' \<in> fst ` set ((k, l) # lkvs)
                    then map_option abstract (getProp rkvs k') else m k')"
    by (auto simp: fun_eq_iff)
  finally have second: "applyChangesV (diffProps path lkvs rkvs) ?t1
          = updateV path (\<lambda>x. AObj (\<lambda>k'. if k' \<in> fst ` set ((k, l) # lkvs)
                    then map_option abstract (getProp rkvs k') else m k')) t" .
  show ?case
    by (simp only: diffProps.simps applyChangesV_append first second)
qed

lemma jsonCopy_jsonLike: "jsonLike v \<Longrightarrow> jsonCopy rt v = v"
proof (induction rt v rule: jsonCopy.induct)
  case (3 rt vs)
  then show ?case by (auto simp: list_all_iff intro: map_idI)
next
  case (4 rt kvs)
  have "map (\<lambda>(k, v). (k, jsonCopy rt v)) kvs = kvs"
    using 4 by (intro map_idI) (auto simp: list_all_iff)
  then show ?case by simp
qed auto

lemma editCopy_deepDiff:
  "jsonLike l \<Longrightarrow> jsonLike r \<Longrightarrow> map (editCopy rt) (deepDiff path l r) = deepDiff path l r"
  "list_all jsonLike ls \<Longrightarrow> list_all jsonLike rs \<Longrightarrow>
     map (editCopy rt) (diffItems path i ls rs) = diffItems path i ls rs"
  "list_all (\<lambda>(k, v). jsonLike v) lkvs \<Longrightarrow> list_all (\<lambda>(k, v). jsonLike v) rkvs \<Longrightarrow>
     map (editCopy rt) (diffProps path lkvs rkvs) = diffProps path lkvs rkvs"
proof (induction path l r and path i ls rs and path lkvs rkvs
       rule: deepDiff_diffItems_diffProps.induct)
  case (1 path ls rhs)
  show ?case
  proof (cases rhs)
    case (JArr rs)
    have "map (editCopy rt) (arrayTail path ls rs) = arrayTail path ls rs"
      using "1.prems" JArr
      by (auto simp: arrayTail_def list_all_length jsonCopy_jsonLike)
    moreover have "map (editCopy rt) (diffItems path 0 ls rs) = diffItems path 0 ls rs"
      using "1.prems" JArr by (intro "1.IH") auto
    ultimately show ?thesis using JArr by simp
  next
    case (JObj kvs)
    have "jsonCopy rt (JArr ls) = JArr ls" "jsonCopy rt rhs = rhs"
      using "1.prems" by (simp_all only: jsonCopy_jsonLike)
    then show ?thesis using JObj by simp
  qed (use "1.prems" in \<open>auto simp: list_all_iff jsonCopy_jsonLike intro: map_idI\<close>)
next
  case (2 path lkvs rhs)
  show ?case
  proof (cases rhs)
    case (JObj rkvs)
    have "map (editCopy rt) (newProps path lkvs rkvs) = newProps path lkvs rkvs"
      using "2.prems" JObj
      by (auto simp: newProps_def list_all_iff jsonCopy_jsonLike)
    moreover have "map (editCopy rt) (diffProps path lkvs rkvs) = diffProps path lkvs rkvs"
      using "2.prems" JObj by (intro "2.IH") auto
    ultimately show ?thesis using JObj by simp
  next
    case (JArr vs)
    have "jsonCopy rt (JObj lkvs) = JObj lkvs" "jsonCopy rt rhs = rhs"
      using "2.prems" by (simp_all only: jsonCopy_jsonLike)
    then show ?thesis using JArr by simp
  next
    case JNull
    have "jsonCopy rt (JObj lkvs) = JObj lkvs"
      using "2.prems" by (simp only: jsonCopy_jsonLike)
    then show ?thesis using JNull by simp
  next
    case (JBool b)
    have "jsonCopy rt (JObj lkvs) = JObj lkvs"
      using "2.prems" by (simp only: jsonCopy_jsonLike)
    then show ?thesis using JBool by simp
  next
    case (JNum n)
    have "jsonCopy rt (JObj lkvs) = JObj lkvs"
      using "2.prems" by (simp only: jsonCopy_jsonLike)
    then show ?thesis using JNum by simp
  next
    case (JStr s)
    have "jsonCopy rt (JObj lkvs) = JObj lkvs"
      using "2.prems" by (simp only: jsonCopy_jsonLike)
    then show ?thesis using JStr by simp
  qed (use "2.prems" in auto)
next
  case (13 path k l lkvs rkvs)
  have l: "jsonLike l" "jsonCopy rt l = l" using "13.prems" by (simp_all add: jsonCopy_jsonLike)
  have rest: "map (editCopy rt) (diffProps path lkvs rkvs) = diffProps path lkvs rkvs"
    using "13.prems" by (intro "13.IH") auto
  show ?case
  proof (cases "getProp rkvs k")
    case None
    then show ?thesis using l rest by simp
  next
    case (Some r)
    then have "(k, r) \<in> set rkvs" by (rule getProp_Some_mem)
    with "13.prems" have "jsonLike r" by (auto simp: list_all_iff)
    with Some l have "map (editCopy rt) (deepDiff (path @ [Key k]) l r) = deepDiff (path @ [Key k]) l r"
      by (intro "13.IH")
    then show ?thesis using Some rest by simp
  qed
qed (auto simp: jsonCopy_jsonLike)

lemma setProp_map_fst:
  "map fst (setProp kvs k v) = (if k \<in> set (map fst kvs) then map fst kvs else map fst kvs @ [k])"
  by (induction kvs) (auto simp: rev_image_eqI)

lemma distinct_setProp: "distinct (map fst kvs) \<Longrightarrow> distinct (map fst (setProp kvs k v))"
  by (simp add: setProp_map_fst)

lemma list_all_setProp:
  "list_all (\<lambda>(k, v). P v) kvs \<Longrightarrow> P v \<Longrightarrow> list_all (\<lambda>(k, v). P v) (setProp kvs k v)"
  by (induction kvs) auto

lemma wfJson_setProp:
  "wfJson (JObj kvs) \<Longrightarrow> wfJson v \<Longrightarrow> wfJson (JObj (setProp kvs k v))"
  by (simp add: distinct_setProp list_all_setProp)

lemma jsonLike_setProp:
  "jsonLike (JObj kvs) \<Longrightarrow> jsonLike v \<Longrightarrow> jsonLike (JObj (setProp kvs k v))"
  by (simp add: list_all_setProp)

lemma wfJson_assign:
  "wfJson (JObj target) \<Longrightarrow> wfJson (JObj source) \<Longrightarrow> wfJson (JObj (assign target source))"
  unfolding assign_def
proof (induction source arbitrary: target)
  case Nil
  then show ?case by simp
next
  case (Cons kv source)
  obtain k v where kv: "kv = (k, v)" by (cases kv)
  have "wfJson (JObj (setProp target k v))"
    using Cons.prems by (intro wfJson_setProp) (auto simp: kv)
  moreover have "wfJson (JObj source)" using Cons.prems by simp
  ultimately show ?case using Cons.IH [of "setProp target k v"] by (simp add: kv)
qed

lemma jsonLike_assign:
  "jsonLike (JObj target) \<Longrightarrow> jsonLike (JObj source) \<Longrightarrow> jsonLike (JObj (assign target source))"
  unfolding assign_def
proof (induction source arbitrary: target)
  case Nil
  then show ?case by simp
next
  case (Cons kv source)
  obtain k v where kv: "kv = (k, v)" by (cases kv)
  have "jsonLike (JObj (setProp target k v))"
    using Cons.prems by (intro jsonLike_setProp) (auto simp: kv)
  moreover have "jsonLike (JObj source)" using Cons.prems by simp
  ultimately show ?case using Cons.IH [of "setProp target k v"] by (simp add: kv)
qed

lemma getProp_assign:
  "distinct (map fst source) \<Longrightarrow>
   getProp (assign target source) k
     = (case getProp source k of Some v \<Rightarrow> Some v | None \<Rightarrow> getProp target k)"
  unfolding assign_def
proof (induction source arbitrary: target)
  case Nil
  then show ?case by simp
next
  case (Cons kv source)
  obtain k0 v0 where kv: "kv = (k0, v0)" by (cases kv)
  have "k0 \<notin> fst ` set source" using Cons.prems by (simp add: kv)
  then have none: "getProp source k0 = None" by (simp add: getProp_None_iff)
  have "getProp (foldl (\<lambda>t (k, v). setProp t k v) (setProp target k0 v0) source) k
          = (case getProp source k of Some v \<Rightarrow> Some v | None \<Rightarrow> getProp (setProp target k0 v0) k)"
    using Cons.prems by (intro Cons.IH) simp
  then show ?case using none by (auto simp: kv getProp_setProp split: option.splits)
qed

lemma getProp_filter_keys:
  "getProp (filter (\<lambda>(k, v). Q k) kvs) k = (if Q k then getProp kvs k else None)"
  by (induction kvs) auto

lemma getProp_append:
  "getProp (xs @ ys) k = (case getProp xs k of Some v \<Rightarrow> Some v | None \<Rightarrow> getProp ys k)"
  by (induction xs) auto

lemma getProp_shallowMerge:
  "getProp (shallowMerge before afterPartial) k
     = (case getProp afterPartial k of Some v \<Rightarrow> Some v | None \<Rightarrow> getProp before k)"
  unfolding shallowMerge_def
  using getProp_map_values [of "\<lambda>k v. case getProp afterPartial k of Some v' \<Rightarrow> v' | None \<Rightarrow> v" before k]
  by (auto simp: getProp_append getProp_filter_keys split: option.splits)

lemma abstract_assign:
  assumes "distinct (map fst afterPartial)"
  shows "abstract (JObj (assign before afterPartial)) = abstract (JObj (shallowMerge before afterPartial))"
proof -
  have "map_of (map (\<lambda>(k, v). (k, abstract v)) (assign before afterPartial)) k
          = map_of (map (\<lambda>(k, v). (k, abstract v)) (shallowMerge before afterPartial)) k" for k
    by (simp only: abstract_getProp getProp_assign [OF assms] getProp_shallowMerge)
  then show ?thesis by (simp add: fun_eq_iff)
qed

text \<open>
  Claim C2. For all plain JSON documents \<open>before\<close> and \<open>afterPartial\<close>, applying the
  changes of \<open>createChangelog rc before afterPartial\<close> in their order to \<open>before\<close>
  (\<open>New\<close> inserts, \<open>Deleted\<close> removes, \<open>Edited\<close> replaces, \<open>ArrayChange\<close> inserts or
  removes at the given index) gives the shallow merge of the top-level fields of
  \<open>afterPartial\<close> over \<open>before\<close>, up to the order in which objects list their
  properties.
\<close>

theorem createChangelog_round_trip:
  assumes "wfJson (JObj before)" "wfJson (JObj afterPartial)"
      and "jsonLike (JObj before)" "jsonLike (JObj afterPartial)"
  shows "abstract (applyChanges (changes (createChangelog rt now rc before afterPartial)) (JObj before))
           = abstract (JObj (shallowMerge before afterPartial))"
proof -
  let ?after = "assign before afterPartial"
  have clone: "map (\<lambda>(k, v). (k, cloneDeep v)) before = before"
    by (intro map_idI) (auto simp: cloneDeep_id)
  have wa: "wfJson (JObj ?after)" using assms(1,2) by (rule wfJson_assign)
  have la: "jsonLike (JObj ?after)" using assms(3,4) by (rule jsonLike_assign)
  have "changes (createChangelog rt now rc before afterPartial)
          = map (editCopy rt) (deepDiff [] (JObj before) (JObj ?after))"
    by (simp add: createChangelog_def diff_def Let_def clone del: deepDiff.simps)
  also have "\<dots> = deepDiff [] (JObj before) (JObj ?after)"
    using assms(3) la by (rule editCopy_deepDiff(1))
  finally have "abstract (applyChanges (changes (createChangelog rt now rc before afterPartial)) (JObj before))
          = applyChangesV (deepDiff [] (JObj before) (JObj ?after)) (abstract (JObj before))"
    by (simp only: abstract_applyChanges applyChangesV_def)
  also have "\<dots> = updateV [] (\<lambda>x. abstract (JObj ?after)) (abstract (JObj before))"
    using assms(1) wa by (rule deepDiff_apply(1)) simp
  also have "\<dots> = abstract (JObj (shallowMerge before afterPartial))"
    using assms(2) by (simp only: updateV.simps abstract_assign wfJson.simps)
  finally show ?thesis .
qed

theorem createChangelog_round_trip_witness:
  "wfJson (JObj testBefore) \<and> wfJson (JObj testAfterPartial)
   \<and> jsonLike (JObj testBefore) \<and> jsonLike (JObj testAfterPartial)
   \<and> changes (createChangelog testRuntime 0 testRc testBefore testAfterPartial)
       = [ArrayChange [Key ''tags''] 3 (New [] (JStr ''d'')),
          ArrayChange [Key ''tags''] 2 (New [] (JStr ''c'')),
          ArrayChange [Key ''tags''] 1 (New [] (JStr ''b'')),
          Deleted [Key ''address'', Key ''city''] (JStr ''Brno''),
          Edited [Key ''address'', Key ''zip''] (JStr ''60200'') (JStr ''61200''),
          New [Key ''address'', Key ''street''] (JStr ''Kounicova''),
          New [Key ''note''] (JStr ''fragile'')]
   \<and> applyChanges (changes (createChangelog testRuntime 0 testRc testBefore testAfterPartial))
         (JObj testBefore)
       = JObj [(''id'', JNum 1),
               (''tags'', JArr [JStr ''a'', JStr ''b'', JStr ''c'', JStr ''d'']),
               (''address'', JObj [(''zip'', JStr ''61200''), (''street'', JStr ''Kounicova'')]),
               (''note'', JStr ''fragile'')]
   \<and> abstract (applyChanges (changes (createChangelog testRuntime 0 testRc testBefore testAfterPartial))
         (JObj testBefore))
       = abstract (JObj (shallowMerge testBefore testAfterPartial))"
proof -
  have 1: "wfJson (JObj testBefore)" by (simp add: testBefore_def)
  have 2: "wfJson (JObj testAfterPartial)" by (simp add: testAfterPartial_def)
  have 3: "jsonLike (JObj testBefore)" by (simp add: testBefore_def)
  have 4: "jsonLike (JObj testAfterPartial)" by (simp add: testAfterPartial_def)
  have 5: "changes (createChangelog testRuntime 0 testRc testBefore testAfterPartial)
       = [ArrayChange [Key ''tags''] 3 (New [] (JStr ''d'')),
          ArrayChange [Key ''tags''] 2 (New [] (JStr ''c'')),
          ArrayChange [Key ''tags''] 1 (New [] (JStr ''b'')),
          Deleted [Key ''address'', Key ''city''] (JStr ''Brno''),
          Edited [Key ''address'', Key ''zip''] (JStr ''60200'') (JStr ''61200''),
          New [Key ''address'', Key ''street''] (JStr ''Kounicova''),
          New [Key ''note''] (JStr ''fragile'')]"
    by (simp add: createChangelog_def diff_def Let_def assign_def newProps_def arrayTail_def
          testBefore_def testAfterPartial_def testRuntime_def testRc_def eval_nat_numeral)
  have 6: "applyChanges (changes (createChangelog testRuntime 0 testRc testBefore testAfterPartial))
         (JObj testBefore)
       = JObj [(''id'', JNum 1),
               (''tags'', JArr [JStr ''a'', JStr ''b'', JStr ''c'', JStr ''d'']),
               (''address'', JObj [(''zip'', JStr ''61200''), (''street'', JStr ''Kounicova'')]),
               (''note'', JStr ''fragile'')]"
    by (simp add: createChangelog_def diff_def Let_def assign_def newProps_def arrayTail_def
          applyChanges_def insertKey_def removeKey_def insertItem_def removeItem_def deleteProp_def
          testBefore_def testAfterPartial_def testRuntime_def testRc_def)
  note t = createChangelog_round_trip [OF 1 2 3 4, of testRuntime 0 testRc]
  show ?thesis
    by (rule conjI [OF 1 conjI [OF 2 conjI [OF 3 conjI [OF 4 conjI [OF 5 conjI [OF 6 t]]]]]])
qed

end
